theory Spec2Isabelle
  imports Complex_Main "HOL-Library.Word" "HOL-Library.Monad_Syntax"
begin

section \<open>JavaScript strings\<close>

text \<open>
  A JavaScript string is a sequence of UTF-16 code units and \<open>s.length\<close> counts code
  units, so a string is a list of 16-bit words. \<open>S\<close> embeds an ASCII literal.
\<close>

type_synonym jstring = "16 word list"

definition S :: "string \<Rightarrow> jstring" where
  "S s = map of_char s"

section \<open>Data model of the collector\<close>

text \<open>
  The sample type carries the structured data of type \<open>'d\<close> (\<open>StructuredToolSample\<close>,
  declared outside these files). An absent boolean option counts as \<open>false\<close>.
\<close>

record 'd ToolSample =
  summary :: jstring
  sample_data :: "'d option"

record 'd ToolUsageSummary =
  u_name :: jstring
  u_count :: nat
  u_errorCount :: "nat option"
  u_samples :: "'d ToolSample list"

record 'd AddSampleOptions =
  opt_data :: "'d option"
  filePath :: "jstring option"
  isWrite :: bool
  isError :: bool

record 'd entry =
  count :: nat
  errorCount :: nat
  samples :: "'d ToolSample list"

text \<open>
  The collector's \<open>Map\<close> and \<open>Set\<close> keep insertion order: an association list and a list.
\<close>

record 'd SummaryCollector =
  data :: "(jstring \<times> 'd entry) list"
  files :: "jstring list"
  categoryLimits :: "(jstring \<times> rat) list"

section \<open>String operations\<close>

text \<open>
  \<open>s.slice(0, end)\<close> for an integer \<open>end\<close>: a negative \<open>end\<close> counts from the end of
  the string, and both bounds are clamped to the string.
\<close>

definition slice0 :: "jstring \<Rightarrow> int \<Rightarrow> jstring" where
  "slice0 s e = (if e < 0 then take (nat (int (length s) + e)) s else take (nat e) s)"

section \<open>Formatting helpers (tool-summarizer)\<close>

text \<open>
  \<^verbatim>\<open>
  export function truncate(s: string, max: number): string {
    if (s.length <= max) return s;
    return s.slice(0, max - 3) + '...';
  }
  \<close>
\<close>

definition truncate :: "jstring \<Rightarrow> int \<Rightarrow> jstring" where
  "truncate s mx = (if int (length s) \<le> mx then s else slice0 s (mx - 3) @ S ''...'')"

text \<open>
  White space as \<open>String.prototype.trim\<close> and the regular-expression class \<open>\s\<close> see
  it: the ECMAScript \<open>WhiteSpace\<close> and \<open>LineTerminator\<close> code units.
\<close>

definition is_ws :: "16 word \<Rightarrow> bool" where
  "is_ws c \<longleftrightarrow>
     c \<in> {0x09, 0x0A, 0x0B, 0x0C, 0x0D, 0x20, 0xA0, 0x1680, 0x2028, 0x2029, 0x202F,
          0x205F, 0x3000, 0xFEFF} \<or> (0x2000 \<le> c \<and> c \<le> 0x200A)"

definition trim :: "jstring \<Rightarrow> jstring" where
  "trim s = rev (dropWhile is_ws (rev (dropWhile is_ws s)))"

definition is_digit :: "16 word \<Rightarrow> bool" where
  "is_digit c \<longleftrightarrow> 0x30 \<le> c \<and> c \<le> 0x39"

text \<open>
  Lower-casing of the letters \<open>A\<close> to \<open>Z\<close>. Code units outside ASCII are left as they
  are: the source only compares lower-cased text against ASCII phrases, and the
  case-insensitive regular expression (without the \<open>u\<close> flag) never lets a non-ASCII
  code unit match an ASCII letter.
\<close>

definition lower :: "16 word \<Rightarrow> 16 word" where
  "lower c = (if 0x41 \<le> c \<and> c \<le> 0x5A then c + 0x20 else c)"

definition toLowerCase :: "jstring \<Rightarrow> jstring" where
  "toLowerCase s = map lower s"

text \<open>\<open>s.includes(needle)\<close>: the needle occurs as a contiguous substring.\<close>

fun includes_js :: "jstring \<Rightarrow> jstring \<Rightarrow> bool" where
  "includes_js [] needle = (needle = [])"
| "includes_js (c # s) needle =
     (take (length needle) (c # s) = needle \<or> includes_js s needle)"

text \<open>Decimal digits of a number, as template literals print a non-negative integer.\<close>

fun digits :: "nat \<Rightarrow> jstring" where
  "digits n = (if n < 10 then [0x30 + of_nat n] else digits (n div 10) @ [0x30 + of_nat (n mod 10)])"

text \<open>\<open>parseInt\<close> on a string of decimal digits.\<close>

definition parseInt :: "jstring \<Rightarrow> nat" where
  "parseInt ds = foldl (\<lambda>acc c. 10 * acc + unat (c - 0x30)) 0 ds"

text \<open>
  \<^verbatim>\<open>
  export function extractExitCode(text?: string): number | undefined {
    if (!text) return undefined;
    const m = text.match(/exit(?:ed with)? code[:\s]+(\d+)/i);
    return m ? parseInt(m[1]) : undefined;
  }
  \<close>
  \<open>ci_prefix p s\<close> matches the lower-case ASCII pattern \<open>p\<close> at the start of \<open>s\<close>, ignoring
  case. \<open>exit_match_here\<close> tries the regular expression at the start of the text and
  returns the captured digits; the alternatives of the pattern exclude each other
  (\<open>ed with\<close> against a space, separators against digits), so the greedy match is the
  only one. \<open>exit_search\<close> finds the leftmost match.
\<close>

definition ci_prefix :: "jstring \<Rightarrow> jstring \<Rightarrow> bool" where
  "ci_prefix p s \<longleftrightarrow> map lower (take (length p) s) = p"

definition exit_match_here :: "jstring \<Rightarrow> jstring option" where
  "exit_match_here t =
     (if ci_prefix (S ''exit'') t then
        let r = drop 4 t;
            r' = (if ci_prefix (S ''ed with'') r then drop 7 r else r)
        in if ci_prefix (S '' code'') r' then
             let r2 = drop 5 r';
                 seps = takeWhile (\<lambda>c. c = 0x3A \<or> is_ws c) r2;
                 ds = takeWhile is_digit (dropWhile (\<lambda>c. c = 0x3A \<or> is_ws c) r2)
             in if seps \<noteq> [] \<and> ds \<noteq> [] then Some ds else None
           else None
      else None)"

fun exit_search :: "jstring \<Rightarrow> jstring option" where
  "exit_search [] = exit_match_here []"
| "exit_search (c # t) =
     (case exit_match_here (c # t) of Some ds \<Rightarrow> Some ds | None \<Rightarrow> exit_search t)"

definition extractExitCode :: "jstring option \<Rightarrow> nat option" where
  "extractExitCode text =
     (case text of
        None \<Rightarrow> None
      | Some t \<Rightarrow> if t = [] then None else map_option parseInt (exit_search t))"

text \<open>
  \<^verbatim>\<open>
  export function shellSummary(cmd: string, result?: string): string {
    let s = `$ ${truncate(cmd, 80)}`;
    const exitCode = extractExitCode(result);
    if (exitCode !== undefined) {
      s += ` -> exit ${exitCode}`;
    } else if (result) {
      s += ` -> "${truncate(result, 80)}"`;
    }
    return s;
  }
  \<close>
  The arrow of the source is the single code unit U+2192, between two spaces.
\<close>

definition arrow :: jstring where
  "arrow = [0x20, 0x2192, 0x20]"

definition dquote :: jstring where
  "dquote = [0x22]"

definition shellSummary :: "jstring \<Rightarrow> jstring option \<Rightarrow> jstring" where
  "shellSummary cmd result =
     (let s = S ''$ '' @ truncate cmd 80
      in case extractExitCode result of
           Some exitCode \<Rightarrow> s @ arrow @ S ''exit '' @ digits exitCode
         | None \<Rightarrow>
             (case result of
                None \<Rightarrow> s
              | Some r \<Rightarrow> if r = [] then s else s @ arrow @ dquote @ truncate r 80 @ dquote))"

section \<open>JavaScript values and objects\<close>

text \<open>
  The values a parsed YAML or JSON document, a preset and a merged configuration are
  made of. Numbers are rationals: the configuration only compares them and tests them
  for being integers. An object is the list of its own enumerable properties in
  property order; every object of this development has \<open>Object.prototype\<close> as its
  prototype. \<open>JFunction\<close> and \<open>JObjectPrototype\<close> are the values a property read finds on
  \<open>Object.prototype\<close> when the object has no own property of that name.
\<close>

datatype jval =
    JUndefined
  | JNull
  | JBool bool
  | JNum rat
  | JStr jstring
  | JArr "jval list"
  | JObj "(jstring \<times> jval) list"
  | JFunction jstring
  | JObjectPrototype

type_synonym props = "(jstring \<times> jval) list"

definition object_prototype_functions :: "jstring list" where
  "object_prototype_functions = map S
     [''constructor'', ''__defineGetter__'', ''__defineSetter__'', ''hasOwnProperty'',
      ''__lookupGetter__'', ''__lookupSetter__'', ''isPrototypeOf'',
      ''propertyIsEnumerable'', ''toString'', ''valueOf'', ''toLocaleString'']"

text \<open>What \<open>Object.prototype\<close> answers for a property name.\<close>

definition inherited :: "jstring \<Rightarrow> jval" where
  "inherited k =
     (if k \<in> set object_prototype_functions then JFunction k
      else if k = S ''__proto__'' then JObjectPrototype
      else JUndefined)"

text \<open>\<open>o[k]\<close>: the own property, else the inherited one, else \<open>undefined\<close>.\<close>

definition get_prop :: "props \<Rightarrow> jstring \<Rightarrow> jval" where
  "get_prop ps k = (case map_of ps k of Some v \<Rightarrow> v | None \<Rightarrow> inherited k)"

text \<open>\<open>k in o\<close>: own or inherited.\<close>

definition has_prop :: "props \<Rightarrow> jstring \<Rightarrow> bool" where
  "has_prop ps k \<longleftrightarrow> k \<in> fst ` set ps \<or> inherited k \<noteq> JUndefined"

text \<open>
  \<open>o[k] = v\<close> on an object literal or a spread copy: an own property keeps its place, a
  new one goes to the end.
\<close>

fun set_prop :: "props \<Rightarrow> jstring \<Rightarrow> jval \<Rightarrow> props" where
  "set_prop [] k v = [(k, v)]"
| "set_prop ((k', v') # ps) k v =
     (if k' = k then (k, v) # ps else (k', v') # set_prop ps k v)"

definition own_props :: "jval \<Rightarrow> props" where
  "own_props v = (case v of JObj ps \<Rightarrow> ps | _ \<Rightarrow> [])"

definition truthy :: "jval \<Rightarrow> bool" where
  "truthy v \<longleftrightarrow> v \<noteq> JUndefined \<and> v \<noteq> JNull \<and> v \<noteq> JBool False \<and> v \<noteq> JNum 0 \<and> v \<noteq> JStr []"

text \<open>
  A data tree as a YAML or JSON parser builds it: the keys of every object are
  distinct, no key is \<open>__proto__\<close> (assigning it would re-parent the object instead of
  storing a property), and no function occurs.
\<close>

fun data_tree :: "jval \<Rightarrow> bool" where
  "data_tree (JArr vs) = (\<forall>v \<in> set vs. data_tree v)"
| "data_tree (JObj ps) =
     (distinct (map fst ps) \<and> S ''__proto__'' \<notin> fst ` set ps \<and>
      (\<forall>v \<in> snd ` set ps. data_tree v))"
| "data_tree (JFunction f) = False"
| "data_tree JObjectPrototype = False"
| "data_tree v = True"

datatype js_error = Error jstring | DataCloneError | TypeError

text \<open>
  \<open>structuredClone\<close>: a data tree is copied (the copy is the same value), a function
  cannot be cloned, and \<open>Object.prototype\<close> is cloned as an object without enumerable
  own properties.
\<close>

definition structuredClone :: "jval \<Rightarrow> js_error + jval" where
  "structuredClone v =
     (case v of
        JFunction f \<Rightarrow> Inl DataCloneError
      | JObjectPrototype \<Rightarrow> Inr (JObj [])
      | _ \<Rightarrow> Inr v)"

section \<open>Verbosity configuration (config/verbosity)\<close>

subsection \<open>Schemas\<close>

text \<open>
  The schema combinators the configuration uses, with the validation library's
  behaviour: \<open>number\<close> with its checks, \<open>boolean\<close>, \<open>string\<close>, \<open>enum\<close>, \<open>default\<close>,
  \<open>optional\<close>, \<open>union\<close>, \<open>record\<close> over string keys, and \<open>object\<close> with an optional
  catch-all schema (without one, unknown keys are stripped). \<open>parse\<close> returns the parsed
  data, or \<open>None\<close> when validation fails.
\<close>

datatype check = IsInt | Min rat

datatype schema =
    ZNumber "check list"
  | ZBoolean
  | ZString
  | ZEnum "jstring list"
  | ZDefault schema jval
  | ZOptional schema
  | ZUnion "schema list"
  | ZRecord schema
  | ZObject "(jstring \<times> schema) list" "schema option"

fun passes :: "check \<Rightarrow> rat \<Rightarrow> bool" where
  "passes IsInt x = (of_int \<lfloor>x\<rfloor> = x)"
| "passes (Min m) x = (m \<le> x)"

text \<open>
  An object's result holds the shape's keys in shape order, then the keys the catch-all
  accepted; a key whose parsed value is \<open>undefined\<close> is left out unless the input has
  it.
\<close>

definition keep_pair :: "props \<Rightarrow> jstring \<Rightarrow> jval \<Rightarrow> props" where
  "keep_pair input k v = (if v \<noteq> JUndefined \<or> has_prop input k then [(k, v)] else [])"

fun parse :: "schema \<Rightarrow> jval \<Rightarrow> jval option"
  and parse_union :: "schema list \<Rightarrow> jval \<Rightarrow> jval option"
  and parse_shape :: "(jstring \<times> schema) list \<Rightarrow> props \<Rightarrow> props option"
  and parse_values :: "schema \<Rightarrow> props \<Rightarrow> props \<Rightarrow> props option"
where
  "parse (ZNumber cs) v =
     (case v of JNum x \<Rightarrow> if \<forall>c \<in> set cs. passes c x then Some (JNum x) else None
              | _ \<Rightarrow> None)"
| "parse ZBoolean v = (case v of JBool b \<Rightarrow> Some (JBool b) | _ \<Rightarrow> None)"
| "parse ZString v = (case v of JStr s \<Rightarrow> Some (JStr s) | _ \<Rightarrow> None)"
| "parse (ZEnum names) v =
     (case v of JStr s \<Rightarrow> if s \<in> set names then Some (JStr s) else None | _ \<Rightarrow> None)"
| "parse (ZDefault s d) v = (if v = JUndefined then Some d else parse s v)"
| "parse (ZOptional s) v = (if v = JUndefined then Some JUndefined else parse s v)"
| "parse (ZUnion ss) v = parse_union ss v"
| "parse (ZRecord s) v =
     (case v of JObj ps \<Rightarrow> map_option JObj (parse_values s ps ps) | _ \<Rightarrow> None)"
| "parse (ZObject shape catchall) v =
     (case v of
        JObj ps \<Rightarrow>
          (case parse_shape shape ps of
             None \<Rightarrow> None
           | Some known \<Rightarrow>
               (case catchall of
                  None \<Rightarrow> Some (JObj known)
                | Some c \<Rightarrow>
                    map_option (\<lambda>extra. JObj (known @ extra))
                      (parse_values c ps (filter (\<lambda>(k, x). k \<notin> fst ` set shape) ps))))
      | _ \<Rightarrow> None)"
| "parse_union [] v = None"
| "parse_union (s # ss) v = (case parse s v of Some r \<Rightarrow> Some r | None \<Rightarrow> parse_union ss v)"
| "parse_shape [] input = Some []"
| "parse_shape ((k, s) # shape) input =
     (case parse s (get_prop input k) of
        None \<Rightarrow> None
      | Some r \<Rightarrow> map_option (\<lambda>rest. keep_pair input k r @ rest) (parse_shape shape input))"
| "parse_values s input [] = Some []"
| "parse_values s input ((k, x) # ps) =
     (case parse s x of
        None \<Rightarrow> None
      | Some r \<Rightarrow> map_option (\<lambda>rest. keep_pair input k r @ rest) (parse_values s input ps))"

text \<open>\<open>z.number().int().min(0).default(d)\<close> and \<open>z.boolean().default(b)\<close>.\<close>

definition cap :: "string \<Rightarrow> rat \<Rightarrow> jstring \<times> schema" where
  "cap k d = (S k, ZDefault (ZNumber [IsInt, Min 0]) (JNum d))"

definition toggle :: "string \<Rightarrow> bool \<Rightarrow> jstring \<times> schema" where
  "toggle k b = (S k, ZDefault ZBoolean (JBool b))"

definition ShellConfigSchema :: schema where
  "ShellConfigSchema = ZObject [
     cap ''maxSamples'' 8,
     cap ''stdoutLines'' 5,
     cap ''stderrLines'' 5,
     cap ''maxChars'' 2000,
     toggle ''showCommand'' True,
     toggle ''showExitCode'' True] None"

definition ReadConfigSchema :: schema where
  "ReadConfigSchema = ZObject [
     cap ''maxSamples'' 20,
     cap ''maxChars'' 0,
     toggle ''showLineRange'' True] None"

definition WriteConfigSchema :: schema where
  "WriteConfigSchema = ZObject [
     cap ''maxSamples'' 5,
     cap ''diffLines'' 200,
     cap ''maxChars'' 5000] None"

definition EditConfigSchema :: schema where
  "EditConfigSchema = ZObject [
     cap ''maxSamples'' 5,
     cap ''diffLines'' 200,
     cap ''maxChars'' 5000] None"

definition GrepConfigSchema :: schema where
  "GrepConfigSchema = ZObject [
     cap ''maxSamples'' 10,
     cap ''maxChars'' 500,
     toggle ''showPattern'' True,
     cap ''matchLines'' 5] None"

definition ThinkingToolsConfigSchema :: schema where
  "ThinkingToolsConfigSchema = ZObject [
     toggle ''extractReasoning'' True,
     cap ''maxReasoningChars'' 500] None"

definition McpConfigSchema :: schema where
  "McpConfigSchema = ZObject [
     cap ''maxSamplesPerNamespace'' 5,
     cap ''paramChars'' 100,
     cap ''resultChars'' 100,
     (S ''thinkingTools'', ThinkingToolsConfigSchema)] None"

definition TaskConfigSchema :: schema where
  "TaskConfigSchema = ZObject [
     cap ''maxSamples'' 5,
     toggle ''includeSubagentResults'' True,
     cap ''subagentResultChars'' 500,
     toggle ''recurseSubagents'' False] None"

definition ThinkingConfigSchema :: schema where
  "ThinkingConfigSchema = ZObject [
     toggle ''include'' True,
     cap ''maxChars'' 1000,
     cap ''maxHighlights'' 5] None"

definition CompactSummaryConfigSchema :: schema where
  "CompactSummaryConfigSchema = ZObject [
     cap ''maxChars'' 500] None"

definition PendingTasksConfigSchema :: schema where
  "PendingTasksConfigSchema = ZObject [
     toggle ''extractFromThinking'' True,
     toggle ''extractFromSubagents'' True,
     cap ''maxTasks'' 10] None"

definition ClaudeAgentConfigSchema :: schema where
  "ClaudeAgentConfigSchema = ZObject [
     toggle ''filterProgressEvents'' True,
     toggle ''parseSubagents'' True,
     toggle ''parseToolResultsDir'' True,
     toggle ''separateHumanFromToolResults'' True] None"

definition AgentFlagsSchema :: schema where
  "AgentFlagsSchema = ZRecord (ZUnion [ZBoolean, ZNumber [], ZString])"

definition AgentsConfigSchema :: schema where
  "AgentsConfigSchema =
     ZObject [(S ''claude'', ClaudeAgentConfigSchema)] (Some (ZOptional AgentFlagsSchema))"

definition preset_names :: "jstring list" where
  "preset_names = map S [''minimal'', ''standard'', ''verbose'', ''full'']"

definition PresetNameSchema :: schema where
  "PresetNameSchema = ZEnum preset_names"

definition VerbosityConfigSchema :: schema where
  "VerbosityConfigSchema = ZObject [
     (S ''preset'', ZDefault PresetNameSchema (JStr (S ''standard''))),
     cap ''recentMessages'' 10,
     cap ''maxMessageChars'' 500,
     (S ''shell'', ShellConfigSchema),
     (S ''read'', ReadConfigSchema),
     (S ''write'', WriteConfigSchema),
     (S ''edit'', EditConfigSchema),
     (S ''grep'', GrepConfigSchema),
     (S ''mcp'', McpConfigSchema),
     (S ''task'', TaskConfigSchema),
     (S ''thinking'', ThinkingConfigSchema),
     (S ''compactSummary'', CompactSummaryConfigSchema),
     (S ''pendingTasks'', PendingTasksConfigSchema),
     (S ''agents'', AgentsConfigSchema)] None"

subsection \<open>Presets\<close>

definition str :: "string \<Rightarrow> string \<Rightarrow> jstring \<times> jval" where
  "str k v = (S k, JStr (S v))"

definition num :: "string \<Rightarrow> rat \<Rightarrow> jstring \<times> jval" where
  "num k n = (S k, JNum n)"

definition flag :: "string \<Rightarrow> bool \<Rightarrow> jstring \<times> jval" where
  "flag k b = (S k, JBool b)"

definition obj :: "string \<Rightarrow> props \<Rightarrow> jstring \<times> jval" where
  "obj k ps = (S k, JObj ps)"

definition MINIMAL_PRESET :: jval where
  "MINIMAL_PRESET = JObj [
     str ''preset'' ''minimal'',
     num ''recentMessages'' 3,
     num ''maxMessageChars'' 200,
     obj ''shell'' [
       num ''maxSamples'' 3,
       num ''stdoutLines'' 3,
       num ''stderrLines'' 3,
       num ''maxChars'' 500,
       flag ''showCommand'' True,
       flag ''showExitCode'' True],
     obj ''read'' [
       num ''maxSamples'' 5,
       num ''maxChars'' 0,
       flag ''showLineRange'' False],
     obj ''write'' [
       num ''maxSamples'' 3,
       num ''diffLines'' 20,
       num ''maxChars'' 1000],
     obj ''edit'' [
       num ''maxSamples'' 3,
       num ''diffLines'' 20,
       num ''maxChars'' 1000],
     obj ''grep'' [
       num ''maxSamples'' 3,
       num ''maxChars'' 200,
       flag ''showPattern'' True,
       num ''matchLines'' 2],
     obj ''mcp'' [
       num ''maxSamplesPerNamespace'' 1,
       num ''paramChars'' 50,
       num ''resultChars'' 50,
       obj ''thinkingTools'' [
         flag ''extractReasoning'' False,
         num ''maxReasoningChars'' 0]],
     obj ''task'' [
       num ''maxSamples'' 2,
       flag ''includeSubagentResults'' False,
       num ''subagentResultChars'' 0,
       flag ''recurseSubagents'' False],
     obj ''thinking'' [
       flag ''include'' False,
       num ''maxChars'' 0,
       num ''maxHighlights'' 0],
     obj ''compactSummary'' [
       num ''maxChars'' 200],
     obj ''pendingTasks'' [
       flag ''extractFromThinking'' False,
       flag ''extractFromSubagents'' False,
       num ''maxTasks'' 5],
     obj ''agents'' [
       obj ''claude'' [
         flag ''filterProgressEvents'' True,
         flag ''parseSubagents'' False,
         flag ''parseToolResultsDir'' False,
         flag ''separateHumanFromToolResults'' False]]]"

definition STANDARD_PRESET :: jval where
  "STANDARD_PRESET = JObj [
     str ''preset'' ''standard'',
     num ''recentMessages'' 10,
     num ''maxMessageChars'' 500,
     obj ''shell'' [
       num ''maxSamples'' 8,
       num ''stdoutLines'' 5,
       num ''stderrLines'' 5,
       num ''maxChars'' 2000,
       flag ''showCommand'' True,
       flag ''showExitCode'' True],
     obj ''read'' [
       num ''maxSamples'' 20,
       num ''maxChars'' 0,
       flag ''showLineRange'' True],
     obj ''write'' [
       num ''maxSamples'' 5,
       num ''diffLines'' 200,
       num ''maxChars'' 5000],
     obj ''edit'' [
       num ''maxSamples'' 5,
       num ''diffLines'' 200,
       num ''maxChars'' 5000],
     obj ''grep'' [
       num ''maxSamples'' 10,
       num ''maxChars'' 500,
       flag ''showPattern'' True,
       num ''matchLines'' 5],
     obj ''mcp'' [
       num ''maxSamplesPerNamespace'' 5,
       num ''paramChars'' 100,
       num ''resultChars'' 100,
       obj ''thinkingTools'' [
         flag ''extractReasoning'' True,
         num ''maxReasoningChars'' 500]],
     obj ''task'' [
       num ''maxSamples'' 5,
       flag ''includeSubagentResults'' True,
       num ''subagentResultChars'' 500,
       flag ''recurseSubagents'' False],
     obj ''thinking'' [
       flag ''include'' True,
       num ''maxChars'' 1000,
       num ''maxHighlights'' 5],
     obj ''compactSummary'' [
       num ''maxChars'' 500],
     obj ''pendingTasks'' [
       flag ''extractFromThinking'' True,
       flag ''extractFromSubagents'' True,
       num ''maxTasks'' 10],
     obj ''agents'' [
       obj ''claude'' [
         flag ''filterProgressEvents'' True,
         flag ''parseSubagents'' True,
         flag ''parseToolResultsDir'' True,
         flag ''separateHumanFromToolResults'' True]]]"

definition VERBOSE_PRESET :: jval where
  "VERBOSE_PRESET = JObj [
     str ''preset'' ''verbose'',
     num ''recentMessages'' 20,
     num ''maxMessageChars'' 2000,
     obj ''shell'' [
       num ''maxSamples'' 15,
       num ''stdoutLines'' 20,
       num ''stderrLines'' 20,
       num ''maxChars'' 8000,
       flag ''showCommand'' True,
       flag ''showExitCode'' True],
     obj ''read'' [
       num ''maxSamples'' 50,
       num ''maxChars'' 500,
       flag ''showLineRange'' True],
     obj ''write'' [
       num ''maxSamples'' 15,
       num ''diffLines'' 500,
       num ''maxChars'' 10000],
     obj ''edit'' [
       num ''maxSamples'' 15,
       num ''diffLines'' 500,
       num ''maxChars'' 10000],
     obj ''grep'' [
       num ''maxSamples'' 20,
       num ''maxChars'' 1000,
       flag ''showPattern'' True,
       num ''matchLines'' 10],
     obj ''mcp'' [
       num ''maxSamplesPerNamespace'' 10,
       num ''paramChars'' 500,
       num ''resultChars'' 1000,
       obj ''thinkingTools'' [
         flag ''extractReasoning'' True,
         num ''maxReasoningChars'' 2000]],
     obj ''task'' [
       num ''maxSamples'' 10,
       flag ''includeSubagentResults'' True,
       num ''subagentResultChars'' 2000,
       flag ''recurseSubagents'' True],
     obj ''thinking'' [
       flag ''include'' True,
       num ''maxChars'' 5000,
       num ''maxHighlights'' 10],
     obj ''compactSummary'' [
       num ''maxChars'' 1000],
     obj ''pendingTasks'' [
       flag ''extractFromThinking'' True,
       flag ''extractFromSubagents'' True,
       num ''maxTasks'' 20],
     obj ''agents'' [
       obj ''claude'' [
         flag ''filterProgressEvents'' True,
         flag ''parseSubagents'' True,
         flag ''parseToolResultsDir'' True,
         flag ''separateHumanFromToolResults'' True]]]"

definition FULL_PRESET :: jval where
  "FULL_PRESET = JObj [
     str ''preset'' ''full'',
     num ''recentMessages'' 50,
     num ''maxMessageChars'' 10000,
     obj ''shell'' [
       num ''maxSamples'' 999,
       num ''stdoutLines'' 100,
       num ''stderrLines'' 100,
       num ''maxChars'' 50000,
       flag ''showCommand'' True,
       flag ''showExitCode'' True],
     obj ''read'' [
       num ''maxSamples'' 999,
       num ''maxChars'' 10000,
       flag ''showLineRange'' True],
     obj ''write'' [
       num ''maxSamples'' 999,
       num ''diffLines'' 999,
       num ''maxChars'' 50000],
     obj ''edit'' [
       num ''maxSamples'' 999,
       num ''diffLines'' 999,
       num ''maxChars'' 50000],
     obj ''grep'' [
       num ''maxSamples'' 999,
       num ''maxChars'' 10000,
       flag ''showPattern'' True,
       num ''matchLines'' 50],
     obj ''mcp'' [
       num ''maxSamplesPerNamespace'' 999,
       num ''paramChars'' 10000,
       num ''resultChars'' 10000,
       obj ''thinkingTools'' [
         flag ''extractReasoning'' True,
         num ''maxReasoningChars'' 10000]],
     obj ''task'' [
       num ''maxSamples'' 999,
       flag ''includeSubagentResults'' True,
       num ''subagentResultChars'' 10000,
       flag ''recurseSubagents'' True],
     obj ''thinking'' [
       flag ''include'' True,
       num ''maxChars'' 50000,
       num ''maxHighlights'' 50],
     obj ''compactSummary'' [
       num ''maxChars'' 5000],
     obj ''pendingTasks'' [
       flag ''extractFromThinking'' True,
       flag ''extractFromSubagents'' True,
       num ''maxTasks'' 100],
     obj ''agents'' [
       obj ''claude'' [
         flag ''filterProgressEvents'' False,
         flag ''parseSubagents'' True,
         flag ''parseToolResultsDir'' True,
         flag ''separateHumanFromToolResults'' True]]]"

definition PRESETS :: props where
  "PRESETS = [
     (S ''minimal'', MINIMAL_PRESET),
     (S ''standard'', STANDARD_PRESET),
     (S ''verbose'', VERBOSE_PRESET),
     (S ''full'', FULL_PRESET)]"

subsection \<open>Deep merge\<close>

text \<open>
  \<^verbatim>\<open>
  function isPlainObject(value: unknown): value is Record<string, unknown> {
    return typeof value === 'object' && value !== null && !Array.isArray(value);
  }
  \<close>
\<close>

definition isPlainObject :: "jval \<Rightarrow> bool" where
  "isPlainObject v = (case v of JObj ps \<Rightarrow> True | JObjectPrototype \<Rightarrow> True | _ \<Rightarrow> False)"

text \<open>
  \<^verbatim>\<open>
  function deepMerge<T extends Record<string, unknown>>(base: T, overrides: Record<string, unknown>): T {
    const result = { ...base } as Record<string, unknown>;
    for (const key of Object.keys(overrides)) {
      const baseVal = result[key];
      const overVal = overrides[key];
      if (isPlainObject(baseVal) && isPlainObject(overVal)) {
        result[key] = deepMerge(baseVal as Record<string, unknown>, overVal);
      } else if (overVal !== undefined) {
        result[key] = overVal;
      }
    }
    return result as T;
  }
  \<close>
  The first argument is the spread copy \<open>result\<close>, the second the properties of
  \<open>overrides\<close> still to visit.
\<close>

function deepMerge :: "props \<Rightarrow> props \<Rightarrow> props" where
  "deepMerge result [] = result"
| "deepMerge result ((key, overVal) # rest) =
     (let baseVal = get_prop result key
      in if isPlainObject baseVal \<and> isPlainObject overVal
         then deepMerge (set_prop result key (JObj (deepMerge (own_props baseVal) (own_props overVal)))) rest
         else if overVal \<noteq> JUndefined
         then deepMerge (set_prop result key overVal) rest
         else deepMerge result rest)"
  by pat_completeness auto
termination
proof (relation "measure (\<lambda>(result, overrides). size_list (size_prod (\<lambda>k. 0) size) overrides)")
  show "wf (measure (\<lambda>(result, overrides). size_list (size_prod (\<lambda>k. 0) size) overrides))"
    by simp
qed (auto simp: isPlainObject_def own_props_def split: jval.splits)

text \<open>
  \<^verbatim>\<open>
  export function getPreset(name: string): VerbosityConfig {
    const key = name as PresetName;
    const preset = PRESETS[key];
    if (!preset) {
      throw new Error(`Unknown verbosity preset "${name}". Valid presets: ${Object.keys(PRESETS).join(', ')}`);
    }
    return structuredClone(preset);
  }
  \<close>
\<close>

fun join :: "jstring \<Rightarrow> jstring list \<Rightarrow> jstring" where
  "join sep [] = []"
| "join sep [x] = x"
| "join sep (x # y # xs) = x @ sep @ join sep (y # xs)"

definition unknown_preset :: "jstring \<Rightarrow> js_error" where
  "unknown_preset name =
     Error (S ''Unknown verbosity preset '' @ dquote @ name @ dquote @ S ''. Valid presets: ''
            @ join (S '', '') (map fst PRESETS))"

definition getPreset :: "jstring \<Rightarrow> js_error + jval" where
  "getPreset name =
     (let preset = get_prop PRESETS name
      in if \<not> truthy preset then Inl (unknown_preset name) else structuredClone preset)"

text \<open>
  \<^verbatim>\<open>
  export function mergeConfig(base: VerbosityConfig, overrides: Partial<VerbosityConfig>): VerbosityConfig {
    return deepMerge(base, overrides as Record<string, unknown>);
  }
  \<close>
  Both arguments are objects by their types.
\<close>

definition mergeConfig :: "jval \<Rightarrow> jval \<Rightarrow> jval" where
  "mergeConfig base overrides = JObj (deepMerge (own_props base) (own_props overrides))"

text \<open>
  \<^verbatim>\<open>
  function parseUserConfig(raw: unknown): VerbosityConfig {
    if (!isPlainObject(raw)) {
      logger.warn('Config file is not a plain object, using standard preset');
      return getPreset('standard');
    }
    const presetName = typeof raw.preset === 'string' && raw.preset in PRESETS ? (raw.preset as PresetName) : 'standard';
    const base = getPreset(presetName);
    const merged = deepMerge(base, raw as Record<string, unknown>);
    const result = VerbosityConfigSchema.safeParse(merged);
    if (result.success) {
      return result.data;
    }
    logger.warn('Config validation errors, falling back to preset defaults:', ...);
    return base;
  }
  \<close>
  An exception of \<open>getPreset\<close> leaves the function; the warnings are not part of the
  result.
\<close>

definition parseUserConfig :: "jval \<Rightarrow> js_error + jval" where
  "parseUserConfig raw =
     (if \<not> isPlainObject raw then getPreset (S ''standard'')
      else
        let presetName =
              (case get_prop (own_props raw) (S ''preset'') of
                 JStr s \<Rightarrow> if has_prop PRESETS s then s else S ''standard''
               | _ \<Rightarrow> S ''standard'')
        in case getPreset presetName of
             Inl e \<Rightarrow> Inl e
           | Inr base \<Rightarrow>
               (let merged = JObj (deepMerge (own_props base) (own_props raw))
                in case parse VerbosityConfigSchema merged of
                     Some parsed \<Rightarrow> Inr parsed
                   | None \<Rightarrow> Inr base))"

section \<open>Summary collector (tool-summarizer)\<close>

text \<open>
  \<^verbatim>\<open>
  function buildCategoryLimits(config: VerbosityConfig): Record<string, number> {
    return {
      Bash: config.shell.maxSamples, shell: config.shell.maxSamples,
      Write: config.write.maxSamples, write: config.write.maxSamples,
      Edit: config.edit.maxSamples, edit: config.edit.maxSamples,
      Read: config.read.maxSamples, read: config.read.maxSamples,
      Grep: config.grep.maxSamples, Glob: config.grep.maxSamples,
      WebSearch: config.grep.maxSamples, WebFetch: config.grep.maxSamples,
      Task: config.mcp.maxSamplesPerNamespace,
      TaskOutput: config.mcp.maxSamplesPerNamespace,
      AskUserQuestion: config.mcp.maxSamplesPerNamespace,
    };
  }
  \<close>
  \<open>number_at cfg a b\<close> reads \<open>cfg.a.b\<close> at its declared type \<open>number\<close>; the result is
  \<open>None\<close> for a tree that does not have the type \<open>VerbosityConfig\<close> there.
\<close>

definition number_at :: "jval \<Rightarrow> string \<Rightarrow> string \<Rightarrow> rat option" where
  "number_at cfg a b =
     (case get_prop (own_props cfg) (S a) of
        JObj ps \<Rightarrow> (case get_prop ps (S b) of JNum n \<Rightarrow> Some n | _ \<Rightarrow> None)
      | _ \<Rightarrow> None)"

definition buildCategoryLimits :: "jval \<Rightarrow> (jstring \<times> rat) list option" where
  "buildCategoryLimits config = do {
     shell \<leftarrow> number_at config ''shell'' ''maxSamples'';
     write \<leftarrow> number_at config ''write'' ''maxSamples'';
     edit \<leftarrow> number_at config ''edit'' ''maxSamples'';
     read \<leftarrow> number_at config ''read'' ''maxSamples'';
     grep \<leftarrow> number_at config ''grep'' ''maxSamples'';
     mcp \<leftarrow> number_at config ''mcp'' ''maxSamplesPerNamespace'';
     Some [
       (S ''Bash'', shell), (S ''shell'', shell),
       (S ''Write'', write), (S ''write'', write),
       (S ''Edit'', edit), (S ''edit'', edit),
       (S ''Read'', read), (S ''read'', read),
       (S ''Grep'', grep), (S ''Glob'', grep),
       (S ''WebSearch'', grep), (S ''WebFetch'', grep),
       (S ''Task'', mcp), (S ''TaskOutput'', mcp), (S ''AskUserQuestion'', mcp)]
   }"

definition DEFAULT_SAMPLE_LIMIT :: rat where
  "DEFAULT_SAMPLE_LIMIT = 5"

text \<open>
  \<^verbatim>\<open>
  constructor(config?: VerbosityConfig) {
    const resolved = config ?? getPreset('standard');
    this.categoryLimits = buildCategoryLimits(resolved);
  }
  \<close>
\<close>

definition SummaryCollector_new :: "jval option \<Rightarrow> 'd SummaryCollector option" where
  "SummaryCollector_new config =
     (case (case config of Some c \<Rightarrow> Inr c | None \<Rightarrow> getPreset (S ''standard'')) of
        Inl e \<Rightarrow> None
      | Inr resolved \<Rightarrow>
          map_option (\<lambda>limits. \<lparr>data = [], files = [], categoryLimits = limits\<rparr>)
            (buildCategoryLimits resolved))"

text \<open>
  \<open>this.categoryLimits[category] ?? DEFAULT_SAMPLE_LIMIT\<close>: an own key gives its number,
  a name that \<open>Object.prototype\<close> answers gives a function or an object (which is not
  nullish, and compares as \<open>NaN\<close>), any other name gives the default.
\<close>

datatype limit = Limit rat | NotANumber

definition sample_limit :: "(jstring \<times> rat) list \<Rightarrow> jstring \<Rightarrow> limit" where
  "sample_limit limits category =
     (case map_of limits category of
        Some n \<Rightarrow> Limit n
      | None \<Rightarrow> if inherited category = JUndefined then Limit DEFAULT_SAMPLE_LIMIT else NotANumber)"

text \<open>\<open>entry.samples.length < maxSamples\<close>.\<close>

fun below :: "nat \<Rightarrow> limit \<Rightarrow> bool" where
  "below n (Limit x) = (of_nat n < x)"
| "below n NotANumber = False"

definition ensure :: "'k \<Rightarrow> 'v \<Rightarrow> ('k \<times> 'v) list \<Rightarrow> ('k \<times> 'v) list" where
  "ensure k v m = (if k \<in> fst ` set m then m else m @ [(k, v)])"

fun modify :: "'k \<Rightarrow> ('v \<Rightarrow> 'v) \<Rightarrow> ('k \<times> 'v) list \<Rightarrow> ('k \<times> 'v) list" where
  "modify k f [] = []"
| "modify k f ((k', v) # m) = (if k' = k then (k', f v) # m else (k', v) # modify k f m)"

definition set_add :: "'a \<Rightarrow> 'a list \<Rightarrow> 'a list" where
  "set_add x xs = (if x \<in> set xs then xs else xs @ [x])"

text \<open>
  \<^verbatim>\<open>
  add(category: string, summary: string, opts?: AddSampleOptions): void {
    if (!this.data.has(category)) {
      this.data.set(category, { count: 0, errorCount: 0, samples: [] });
    }
    const entry = this.data.get(category)!;
    entry.count++;
    if (opts?.isError) entry.errorCount++;

    const maxSamples = this.categoryLimits[category] ?? DEFAULT_SAMPLE_LIMIT;
    if (entry.samples.length < maxSamples) {
      const sample: ToolSample = { summary };
      if (opts?.data) sample.data = opts.data;
      entry.samples.push(sample);
    }

    if (opts?.isWrite && opts?.filePath) {
      this.files.add(opts.filePath);
    }
  }
  \<close>
\<close>

definition add_entry :: "limit \<Rightarrow> jstring \<Rightarrow> 'd AddSampleOptions option \<Rightarrow> 'd entry \<Rightarrow> 'd entry" where
  "add_entry maxSamples summ opts e =
     (let e1 = e\<lparr>count := count e + 1\<rparr>;
          e2 = (if (case opts of Some opt \<Rightarrow> isError opt | None \<Rightarrow> False)
                then e1\<lparr>errorCount := errorCount e1 + 1\<rparr> else e1)
      in if below (length (samples e2)) maxSamples
         then e2\<lparr>samples := samples e2 @
                [\<lparr>summary = summ, sample_data = (case opts of Some opt \<Rightarrow> opt_data opt | None \<Rightarrow> None)\<rparr>]\<rparr>
         else e2)"

definition add :: "jstring \<Rightarrow> jstring \<Rightarrow> 'd AddSampleOptions option \<Rightarrow> 'd SummaryCollector \<Rightarrow> 'd SummaryCollector" where
  "add category summ opts c =
     (let present = ensure category \<lparr>count = 0, errorCount = 0, samples = []\<rparr> (data c);
          maxSamples = sample_limit (categoryLimits c) category;
          c1 = c\<lparr>data := modify category (add_entry maxSamples summ opts) present\<rparr>
      in case opts of
           None \<Rightarrow> c1
         | Some opt \<Rightarrow>
             (case filePath opt of
                None \<Rightarrow> c1
              | Some p \<Rightarrow> if isWrite opt \<and> p \<noteq> [] then c1\<lparr>files := set_add p (files c1)\<rparr> else c1))"

text \<open>
  \<^verbatim>\<open>
  trackFile(filePath: string): void { this.files.add(filePath); }
  getSummaries(): ToolUsageSummary[] {
    return Array.from(this.data.entries()).map(([name, { count, errorCount, samples }]) => ({
      name, count, ...(errorCount > 0 ? { errorCount } : {}), samples,
    }));
  }
  getFilesModified(): string[] { return Array.from(this.files); }
  \<close>
\<close>

definition trackFile :: "jstring \<Rightarrow> 'd SummaryCollector \<Rightarrow> 'd SummaryCollector" where
  "trackFile p c = c\<lparr>files := set_add p (files c)\<rparr>"

definition getSummaries :: "'d SummaryCollector \<Rightarrow> 'd ToolUsageSummary list" where
  "getSummaries c =
     map (\<lambda>(name, e).
            \<lparr>u_name = name, u_count = count e,
             u_errorCount = (if errorCount e > 0 then Some (errorCount e) else None),
             u_samples = samples e\<rparr>)
         (data c)"

definition getFilesModified :: "'d SummaryCollector \<Rightarrow> jstring list" where
  "getFilesModified c = files c"

text \<open>A sequence of calls on a collector, in program order.\<close>

datatype 'd call = Add jstring jstring "'d AddSampleOptions option" | TrackFile jstring

fun apply_call :: "'d SummaryCollector \<Rightarrow> 'd call \<Rightarrow> 'd SummaryCollector" where
  "apply_call c (Add category summ opts) = add category summ opts c"
| "apply_call c (TrackFile p) = trackFile p c"

definition run :: "'d call list \<Rightarrow> 'd SummaryCollector \<Rightarrow> 'd SummaryCollector" where
  "run calls c = foldl apply_call c calls"

section \<open>Tool-call extraction pipeline\<close>

text \<open>
  Modelled from the spec: the extraction pipeline (\<open>extractAnthropicToolData\<close>) and the
  tool-name classifier are not in the repository's files. The model follows the spec's
  two passes over the normalized message stream: pass 1 records every tool result's
  text (capped at a fixed ceiling, 4000 code units by the changelog) and error flag
  under its correlation id; pass 2 visits every tool invocation, classifies its name,
  looks its result up and hands the category's summary to the collector together with
  the structured data and the error flag. The shell summary is \<open>shellSummary\<close> of the
  source. What the spec leaves open is a parameter: the classifier \<open>classify\<close>, the
  argument reader \<open>command_of\<close>, the structured shell data \<open>shell_data\<close>, and the calls
  \<open>other\<close> makes for every other category and for unclassified names.
\<close>

datatype category =
  Shell | Read | Write | Edit | Grep | Glob | Search | Fetch | Task | Ask | Mcp | Reasoning

datatype 'a content_block =
    text_block jstring
  | tool_invocation jstring 'a jstring
  | tool_result jstring jstring bool
  | thinking jstring

datatype role = User | Assistant

type_synonym 'a message = "role \<times> 'a content_block list"

definition RESULT_CEILING :: nat where
  "RESULT_CEILING = 4000"

fun index_block :: "'a content_block \<Rightarrow> (jstring \<rightharpoonup> jstring \<times> bool) \<Rightarrow> (jstring \<rightharpoonup> jstring \<times> bool)" where
  "index_block (tool_result rid text is_error) idx = idx(rid \<mapsto> (take RESULT_CEILING text, is_error))"
| "index_block b idx = idx"

definition result_index :: "'a message list \<Rightarrow> (jstring \<rightharpoonup> jstring \<times> bool)" where
  "result_index msgs = foldl (\<lambda>idx b. index_block b idx) Map.empty (concat (map snd msgs))"

fun invocation_calls ::
  "(jstring \<Rightarrow> category option) \<Rightarrow> ('a \<Rightarrow> jstring) \<Rightarrow>
   (jstring \<Rightarrow> jstring option \<Rightarrow> bool \<Rightarrow> 'd) \<Rightarrow>
   (category option \<Rightarrow> jstring \<Rightarrow> 'a \<Rightarrow> (jstring \<times> bool) option \<Rightarrow> 'd call list) \<Rightarrow>
   (jstring \<rightharpoonup> jstring \<times> bool) \<Rightarrow> 'a content_block \<Rightarrow> 'd call list" where
  "invocation_calls classify command_of shell_data other idx (tool_invocation name args cid) =
     (case classify name of
        Some Shell \<Rightarrow>
          (let result = idx cid;
               text = map_option fst result;
               is_error = (case result of Some (t, e) \<Rightarrow> e | None \<Rightarrow> False)
           in [Add (S ''shell'') (shellSummary (command_of args) text)
                 (Some \<lparr>opt_data = Some (shell_data (command_of args) text is_error),
                        filePath = None, isWrite = False, isError = is_error\<rparr>)])
      | c \<Rightarrow> other c name args (idx cid))"
| "invocation_calls classify command_of shell_data other idx b = []"

definition extractToolData ::
  "(jstring \<Rightarrow> category option) \<Rightarrow> ('a \<Rightarrow> jstring) \<Rightarrow>
   (jstring \<Rightarrow> jstring option \<Rightarrow> bool \<Rightarrow> 'd) \<Rightarrow>
   (category option \<Rightarrow> jstring \<Rightarrow> 'a \<Rightarrow> (jstring \<times> bool) option \<Rightarrow> 'd call list) \<Rightarrow>
   'a message list \<Rightarrow> jval \<Rightarrow> ('d ToolUsageSummary list \<times> jstring list) option" where
  "extractToolData classify command_of shell_data other msgs config =
     map_option
       (\<lambda>collector.
          let idx = result_index msgs;
              calls = concat (map (invocation_calls classify command_of shell_data other idx)
                                  (concat (map snd msgs)));
              c = run calls collector
          in (getSummaries c, getFilesModified c))
       (SummaryCollector_new (Some config))"

section \<open>Claude parser (parsers/claude)\<close>

text \<open>
  A transcript line at the type the parser declares for it: its \<open>type\<close>, and the content
  of its message, which is a string or an array of content blocks. A block has a
  \<open>type\<close> and, depending on it, a text, a tool name and the tool's input object.
\<close>

datatype block =
  Block (block_type: jstring) (block_text: "jstring option") (block_name: "jstring option")
        (block_input: "props option")

datatype content = Text jstring | Blocks "block list"

datatype ClaudeMessage = ClaudeMessage (msg_type: jstring) (msg_content: "content option")

text \<open>
  \<^verbatim>\<open>
  function isTerminationMessage(text: string): boolean {
    const lower = text.toLowerCase();
    return lower.includes('out of extra usage') ||
           lower.includes('rate limit') ||
           lower.includes('resets ') ||
           (text.length < 50 && (lower.includes('usage') || lower.includes('limit')));
  }
  \<close>
\<close>

definition isTerminationMessage :: "jstring \<Rightarrow> bool" where
  "isTerminationMessage text =
     (let lower = toLowerCase text
      in includes_js lower (S ''out of extra usage'') \<or>
         includes_js lower (S ''rate limit'') \<or>
         includes_js lower (S ''resets '') \<or>
         (length text < 50 \<and> (includes_js lower (S ''usage'') \<or> includes_js lower (S ''limit''))))"

text \<open>
  \<^verbatim>\<open>
  async function extractSubagentResult(filePath: string): Promise<{ text: string | null; status: 'completed' | 'killed'; toolCallCount: number }> {
    try {
      const subMsgs = await readJsonlFile<ClaudeMessage>(filePath);
      let toolCallCount = 0;
      let lastSubstantialText: string | null = null;
      let wasKilled = false;
      for (const m of subMsgs) {
        if (m.type === 'assistant' && Array.isArray(m.message?.content)) {
          for (const block of m.message!.content) {
            if (typeof block === 'object' && block.type === 'tool_use') toolCallCount++;
          }
          const text = extractTextFromBlocks(m.message?.content);
          if (text && text.length > 50 && !isTerminationMessage(text)) {
            lastSubstantialText = text;
          }
          if (text && isTerminationMessage(text)) {
            wasKilled = true;
          }
        }
      }
      return { text: lastSubstantialText, status: wasKilled ? 'killed' : 'completed', toolCallCount };
    } catch (err) {
      logger.debug('claude: failed to read subagent file', filePath, err);
      return { text: null, status: 'killed', toolCallCount: 0 };
    }
  }
  \<close>
  The file system is the environment: what \<open>readJsonlFile\<close> does with the path is the
  function's input, either the messages it read or the exception it raised. The text
  extractor \<open>extractTextFromBlocks\<close> is declared outside these files and is a
  parameter, \<open>etb\<close>.
\<close>

datatype 'a read = ReadFailed | ReadOk "'a list"

datatype status = completed | killed

datatype subagent_result =
  SubagentResult (res_text: "jstring option") (res_status: status) (res_toolCallCount: nat)

datatype loop_state =
  LoopState (toolCallCount: nat) (lastSubstantialText: "jstring option") (wasKilled: bool)

definition subagent_step :: "(block list \<Rightarrow> jstring) \<Rightarrow> loop_state \<Rightarrow> ClaudeMessage \<Rightarrow> loop_state" where
  "subagent_step etb st m =
     (case msg_content m of
        Some (Blocks blocks) \<Rightarrow>
          if msg_type m = S ''assistant'' then
            let n = toolCallCount st + length (filter (\<lambda>b. block_type b = S ''tool_use'') blocks);
                text = etb blocks;
                last = (if text \<noteq> [] \<and> length text > 50 \<and> \<not> isTerminationMessage text
                        then Some text else lastSubstantialText st);
                was = (if text \<noteq> [] \<and> isTerminationMessage text then True else wasKilled st)
            in LoopState n last was
          else st
      | _ \<Rightarrow> st)"

definition extractSubagentResult :: "(block list \<Rightarrow> jstring) \<Rightarrow> ClaudeMessage read \<Rightarrow> subagent_result" where
  "extractSubagentResult etb file =
     (case file of
        ReadFailed \<Rightarrow> SubagentResult None killed 0
      | ReadOk subMsgs \<Rightarrow>
          (let st = foldl (subagent_step etb) (LoopState 0 None False) subMsgs
           in SubagentResult (lastSubstantialText st)
                (if wasKilled st then killed else completed) (toolCallCount st)))"

text \<open>
  Modelled from the spec: \<open>extractTextFromBlocks\<close> is not in the repository's files; by
  the changelog it is the shared extractor of the text of a block array. This instance
  joins the texts of the \<open>text\<close> blocks with newlines. It is used only to run the
  functions above on concrete transcripts.
\<close>

definition extractTextFromBlocks :: "block list \<Rightarrow> jstring" where
  "extractTextFromBlocks blocks =
     join [0x0A] (map (\<lambda>b. case block_text b of Some x \<Rightarrow> x | None \<Rightarrow> [])
                      (filter (\<lambda>b. block_type b = S ''text'') blocks))"

text \<open>
  \<^verbatim>\<open>
  function extractPendingFromThinking(messages: ClaudeMessage[], maxTasks: number): string[] {
    const tasks: string[] = [];
    const thinkingToolNames = new Set([
      'crash-think-tool', 'must-use-think-tool-crash-crash', 'sequential-thinking', 'think']);
    // Walk backwards so we get the most recent thinking first
    for (let i = messages.length - 1; i >= 0 && tasks.length < maxTasks; i--) {
      const msg = messages[i];
      if (msg.type !== 'assistant') continue;
      const content = msg.message?.content;
      if (!Array.isArray(content)) continue;
      for (const block of content) {
        if (tasks.length >= maxTasks) break;
        if (block.type !== 'tool_use') continue;
        const name = (block as Record<string, unknown>).name as string;
        if (!thinkingToolNames.has(name)) continue;
        const input = (block as Record<string, unknown>).input as Record<string, unknown> | undefined;
        if (!input) continue;
        const nextAction = input.next_action as string | undefined;
        if (nextAction && typeof nextAction === 'string' && nextAction.length > 5) {
          // Avoid duplicates
          const trimmed = truncate(nextAction.trim(), 200);
          if (!tasks.includes(trimmed)) {
            tasks.push(trimmed);
          }
        }
      }
    }
    return tasks;
  }
  \<close>
  \<open>next_action_of\<close> is what one block offers: the trimmed, truncated next action of a
  thinking-tool invocation whose \<open>next_action\<close> is a string of more than five code units.
\<close>

definition thinkingToolNames :: "jstring list" where
  "thinkingToolNames = map S
     [''crash-think-tool'', ''must-use-think-tool-crash-crash'', ''sequential-thinking'', ''think'']"

definition next_action_of :: "block \<Rightarrow> jstring option" where
  "next_action_of b =
     (if block_type b \<noteq> S ''tool_use'' then None
      else case block_name b of
        None \<Rightarrow> None
      | Some name \<Rightarrow>
          if name \<notin> set thinkingToolNames then None
          else case block_input b of
            None \<Rightarrow> None
          | Some input \<Rightarrow>
              (case get_prop input (S ''next_action'') of
                 JStr nextAction \<Rightarrow>
                   if nextAction \<noteq> [] \<and> length nextAction > 5
                   then Some (truncate (trim nextAction) 200) else None
               | _ \<Rightarrow> None))"

fun scan_blocks :: "int \<Rightarrow> block list \<Rightarrow> jstring list \<Rightarrow> jstring list" where
  "scan_blocks maxTasks [] tasks = tasks"
| "scan_blocks maxTasks (b # bs) tasks =
     (if int (length tasks) \<ge> maxTasks then tasks
      else case next_action_of b of
        None \<Rightarrow> scan_blocks maxTasks bs tasks
      | Some trimmed \<Rightarrow>
          if trimmed \<in> set tasks then scan_blocks maxTasks bs tasks
          else scan_blocks maxTasks bs (tasks @ [trimmed]))"

text \<open>The outer loop, over the messages from the last to the first.\<close>

fun walk_back :: "int \<Rightarrow> ClaudeMessage list \<Rightarrow> jstring list \<Rightarrow> jstring list" where
  "walk_back maxTasks [] tasks = tasks"
| "walk_back maxTasks (msg # earlier) tasks =
     (if \<not> int (length tasks) < maxTasks then tasks
      else if msg_type msg \<noteq> S ''assistant'' then walk_back maxTasks earlier tasks
      else case msg_content msg of
        Some (Blocks blocks) \<Rightarrow> walk_back maxTasks earlier (scan_blocks maxTasks blocks tasks)
      | _ \<Rightarrow> walk_back maxTasks earlier tasks)"

definition extractPendingFromThinking :: "ClaudeMessage list \<Rightarrow> int \<Rightarrow> jstring list" where
  "extractPendingFromThinking messages maxTasks = walk_back maxTasks (rev messages) []"

text \<open>
  The sub-agent loop of \<open>extractClaudeContext\<close>:
  \<^verbatim>\<open>
  let subagentCount = 0;
  for (const task of uniqueTasks) {
    if (subagentCount >= cfg.task.maxSamples) break;
    const subagentPath = path.join(sessionDir, 'subagents', `agent-${task.taskId}.jsonl`);
    const { text, status, toolCallCount } = await extractSubagentResult(subagentPath);
    if (!sessionNotes.subagentResults) sessionNotes.subagentResults = [];
    sessionNotes.subagentResults.push({
      taskId: task.taskId, description: task.description, status,
      result: text ? truncate(text, cfg.task.subagentResultChars) : undefined,
      toolCallCount,
    });
    if (text) {
      if (!sessionNotes.reasoning) sessionNotes.reasoning = [];
      sessionNotes.reasoning.push(`Subagent "${task.description}": ${truncate(text, cfg.task.subagentResultChars)}`);
      subagentCount++;
    } else if (!completedIds.has(task.taskId)) {
      if (cfg.pendingTasks.extractFromSubagents && pendingTasks.length < cfg.pendingTasks.maxTasks) {
        pendingTasks.push(`Incomplete subagent: ${task.description}`);
      }
    }
  }
  \<close>
  A task is its id and description; \<open>read_file\<close> gives, for a task id, what reading that
  task's transcript does. The state is what the loop writes: the counter, the
  sub-agent results, the reasoning notes and the pending tasks.
\<close>

datatype subagent_note =
  SubagentNote (note_taskId: jstring) (note_description: jstring) (note_status: status)
               (note_result: "jstring option") (note_toolCallCount: nat)

datatype notes_state =
  NotesState (subagentCount: nat) (subagentResults: "subagent_note list")
             (reasoning: "jstring list") (pendingTasks: "jstring list")

datatype subagent_config =
  SubagentConfig (task_maxSamples: int) (task_subagentResultChars: int)
                 (pending_extractFromSubagents: bool) (pending_maxTasks: int)

definition resolve_task ::
  "(block list \<Rightarrow> jstring) \<Rightarrow> (jstring \<Rightarrow> ClaudeMessage read) \<Rightarrow> subagent_config \<Rightarrow>
   jstring list \<Rightarrow> jstring \<times> jstring \<Rightarrow> notes_state \<Rightarrow> notes_state" where
  "resolve_task etb read_file cfg completedIds task st =
     (let taskId = fst task; description = snd task;
          r = extractSubagentResult etb (read_file taskId);
          text = (case res_text r of Some t \<Rightarrow> if t = [] then None else Some t | None \<Rightarrow> None);
          shown = map_option (\<lambda>t. truncate t (task_subagentResultChars cfg)) text;
          results = subagentResults st @
            [SubagentNote taskId description (res_status r) shown (res_toolCallCount r)]
      in case shown of
           Some t \<Rightarrow>
             NotesState (subagentCount st + 1) results
               (reasoning st @ [S ''Subagent '' @ dquote @ description @ dquote @ S '': '' @ t])
               (pendingTasks st)
         | None \<Rightarrow>
             if taskId \<notin> set completedIds \<and> pending_extractFromSubagents cfg \<and>
                int (length (pendingTasks st)) < pending_maxTasks cfg
             then NotesState (subagentCount st) results (reasoning st)
                    (pendingTasks st @ [S ''Incomplete subagent: '' @ description])
             else NotesState (subagentCount st) results (reasoning st) (pendingTasks st))"

fun resolve_subagents ::
  "(block list \<Rightarrow> jstring) \<Rightarrow> (jstring \<Rightarrow> ClaudeMessage read) \<Rightarrow> subagent_config \<Rightarrow>
   jstring list \<Rightarrow> (jstring \<times> jstring) list \<Rightarrow> notes_state \<Rightarrow> notes_state" where
  "resolve_subagents etb read_file cfg completedIds [] st = st"
| "resolve_subagents etb read_file cfg completedIds (task # rest) st =
     (if int (subagentCount st) \<ge> task_maxSamples cfg then st
      else resolve_subagents etb read_file cfg completedIds rest
             (resolve_task etb read_file cfg completedIds task st))"

section \<open>Notions used in the statements\<close>

subsection \<open>Lists\<close>

text \<open>The elements of a list in the order of their first occurrence.\<close>

fun first_occurrences :: "'a list \<Rightarrow> 'a list" where
  "first_occurrences [] = []"
| "first_occurrences (x # xs) = x # first_occurrences (filter (\<lambda>y. y \<noteq> x) xs)"

subsection \<open>Collector\<close>

text \<open>
  The path a call records as modified, and the category a call counts: read off the
  call, not off the collector.
\<close>

definition tracked_paths :: "'d call \<Rightarrow> jstring list" where
  "tracked_paths c =
     (case c of
        TrackFile p \<Rightarrow> [p]
      | Add category summ opts \<Rightarrow>
          (case opts of
             None \<Rightarrow> []
           | Some opt \<Rightarrow>
               (case filePath opt of
                  None \<Rightarrow> []
                | Some p \<Rightarrow> if isWrite opt \<and> p \<noteq> [] then [p] else [])))"

definition added_category :: "'d call \<Rightarrow> jstring list" where
  "added_category c = (case c of Add category summ opts \<Rightarrow> [category] | TrackFile p \<Rightarrow> [])"

definition adds_of :: "jstring \<Rightarrow> 'd call list \<Rightarrow> nat" where
  "adds_of category calls = count_list (concat (map added_category calls)) category"

text \<open>A category's cap: the configured one, else the default.\<close>

definition cap_of :: "(jstring \<times> rat) list \<Rightarrow> jstring \<Rightarrow> rat" where
  "cap_of limits category =
     (case map_of limits category of Some n \<Rightarrow> n | None \<Rightarrow> DEFAULT_SAMPLE_LIMIT)"

definition caps_ok :: "(jstring \<times> rat) list \<Rightarrow> bool" where
  "caps_ok limits \<longleftrightarrow> list_all (\<lambda>(k, n). 0 \<le> n \<and> n \<in> \<int>) limits"

definition count_at :: "(jstring \<times> 'd entry) list \<Rightarrow> jstring \<Rightarrow> nat" where
  "count_at m k = (case map_of m k of Some e \<Rightarrow> count e | None \<Rightarrow> 0)"

definition bounded :: "(jstring \<times> rat) list \<Rightarrow> (jstring \<times> 'd entry) list \<Rightarrow> bool" where
  "bounded limits m \<longleftrightarrow>
     distinct (map fst m) \<and> list_all (\<lambda>(k, e). of_nat (length (samples e)) \<le> cap_of limits k) m"

text \<open>The result text of the shell invocation of the end-to-end example.\<close>

definition pnpm_output :: jstring where
  "pnpm_output = S ''exited with code: 0'' @ [0x0A] @ S ''OK''"

subsection \<open>Configuration\<close>

text \<open>\<open>replace_at path new v\<close> is \<open>v\<close> with the value at \<open>path\<close> replaced and nothing else changed.\<close>

fun replace_at :: "jstring list \<Rightarrow> jval \<Rightarrow> jval \<Rightarrow> jval" where
  "replace_at [] new v = new"
| "replace_at (k # path) new v =
     (case v of
        JObj ps \<Rightarrow> JObj (map (\<lambda>(k', x). if k' = k then (k', replace_at path new x) else (k', x)) ps)
      | _ \<Rightarrow> v)"

text \<open>The preset name \<open>parseUserConfig\<close> selects for a raw object.\<close>

definition selected_preset :: "props \<Rightarrow> jstring" where
  "selected_preset ps =
     (case get_prop ps (S ''preset'') of
        JStr s \<Rightarrow> if has_prop PRESETS s then s else S ''standard''
      | _ \<Rightarrow> S ''standard'')"

text \<open>
  A tree holds a negative number for a cap of the schema: at a field whose schema is a
  number with minimum 0, reached through objects along the schema's shape.
\<close>

fun negative_cap :: "schema \<Rightarrow> jval \<Rightarrow> bool" where
  "negative_cap (ZDefault (ZNumber cs) d) (JNum x) = (Min 0 \<in> set cs \<and> x < 0)"
| "negative_cap (ZObject shape catchall) (JObj ps) =
     list_ex (\<lambda>(k, s). case map_of ps k of Some v \<Rightarrow> negative_cap s v | None \<Rightarrow> False) shape"
| "negative_cap s v = False"

subsection \<open>Sub-agent transcripts\<close>

text \<open>
  The spec's words for a transcript's assistant texts: a text is substantial when it is
  non-empty, longer than the minimum length and not a termination message; it is a
  termination text when it is non-empty and matches the heuristic.
  \<open>killed_as_claimed\<close> is the status rule as the spec words it: some termination text has
  no substantial text after it.
\<close>

definition substantial :: "jstring \<Rightarrow> bool" where
  "substantial t \<longleftrightarrow> t \<noteq> [] \<and> length t > 50 \<and> \<not> isTerminationMessage t"

definition termination_text :: "jstring \<Rightarrow> bool" where
  "termination_text t \<longleftrightarrow> t \<noteq> [] \<and> isTerminationMessage t"

definition assistant_blocks :: "ClaudeMessage \<Rightarrow> block list option" where
  "assistant_blocks m =
     (case msg_content m of
        Some (Blocks blocks) \<Rightarrow> if msg_type m = S ''assistant'' then Some blocks else None
      | _ \<Rightarrow> None)"

definition assistant_texts :: "(block list \<Rightarrow> jstring) \<Rightarrow> ClaudeMessage list \<Rightarrow> jstring list" where
  "assistant_texts etb msgs = map etb (List.map_filter assistant_blocks msgs)"

fun killed_as_claimed :: "jstring list \<Rightarrow> bool" where
  "killed_as_claimed [] = False"
| "killed_as_claimed (t # later) =
     ((termination_text t \<and> \<not> list_ex substantial later) \<or> killed_as_claimed later)"

definition tool_uses :: "ClaudeMessage list \<Rightarrow> nat" where
  "tool_uses msgs =
     length (filter (\<lambda>b. block_type b = S ''tool_use'') (concat (List.map_filter assistant_blocks msgs)))"

text \<open>An assistant message that says one text, and two texts for the examples.\<close>

definition says :: "jstring \<Rightarrow> ClaudeMessage" where
  "says text = ClaudeMessage (S ''assistant'') (Some (Blocks [Block (S ''text'') (Some text) None None]))"

definition limit_notice :: jstring where
  "limit_notice = S ''You have hit the rate limit''"

definition final_report :: jstring where
  "final_report = S ''The refactoring is complete and every test of the suite passes now.''"

subsection \<open>Pending tasks\<close>

text \<open>
  The next actions a message offers, in block order; an assistant message that carries
  one reasoning step; and the loop of the source over a list of candidates.
\<close>

definition next_actions :: "ClaudeMessage \<Rightarrow> jstring list" where
  "next_actions msg =
     (case assistant_blocks msg of Some blocks \<Rightarrow> List.map_filter next_action_of blocks | None \<Rightarrow> [])"

definition reasoning_step :: "jstring \<Rightarrow> ClaudeMessage" where
  "reasoning_step nextAction =
     ClaudeMessage (S ''assistant'')
       (Some (Blocks [Block (S ''tool_use'') None (Some (S ''sequential-thinking''))
                        (Some [(S ''next_action'', JStr nextAction)])]))"

fun collect :: "int \<Rightarrow> jstring list \<Rightarrow> jstring list \<Rightarrow> jstring list" where
  "collect maxTasks [] tasks = tasks"
| "collect maxTasks (c # cs) tasks =
     (if int (length tasks) \<ge> maxTasks then tasks
      else if c \<in> set tasks then collect maxTasks cs tasks
      else collect maxTasks cs (tasks @ [c]))"

definition task_a :: jstring where
  "task_a = S ''run the unit tests''"

definition task_b :: jstring where
  "task_b = S ''  update the changelog ''"

definition task_c :: jstring where
  "task_c = S ''open the pull request''"

section \<open>Evaluation\<close>

lemmas lit = S_def str_def num_def flag_def obj_def

lemmas objs = get_prop_def inherited_def object_prototype_functions_def own_props_def
  isPlainObject_def truthy_def has_prop_def

lemmas schemas = VerbosityConfigSchema_def ShellConfigSchema_def ReadConfigSchema_def
  WriteConfigSchema_def EditConfigSchema_def GrepConfigSchema_def McpConfigSchema_def
  ThinkingToolsConfigSchema_def TaskConfigSchema_def ThinkingConfigSchema_def
  CompactSummaryConfigSchema_def PendingTasksConfigSchema_def AgentsConfigSchema_def
  ClaudeAgentConfigSchema_def AgentFlagsSchema_def PresetNameSchema_def preset_names_def
  cap_def toggle_def keep_pair_def

lemmas collector_eval = run_def add_def add_entry_def ensure_def sample_limit_def set_add_def
  trackFile_def getSummaries_def getFilesModified_def DEFAULT_SAMPLE_LIMIT_def inherited_def
  object_prototype_functions_def S_def Let_def

section \<open>Properties of the formatting helpers\<close>

lemma length_S [simp]: "length (S s) = length s"
  by (simp add: S_def)

text \<open>
  Claim C10. For every string \<open>s\<close> and every integer \<open>max \<ge> 3\<close>, \<open>truncate s max\<close> is
  \<open>s\<close> itself when \<open>s\<close> has at most \<open>max\<close> code units; otherwise it has exactly \<open>max\<close>
  code units, its first \<open>max - 3\<close> code units are those of \<open>s\<close>, and it ends with
  three dots.
\<close>

theorem truncate_spec:
  assumes "3 \<le> mx"
  shows "(int (length s) \<le> mx \<longrightarrow> truncate s mx = s) \<and>
         (mx < int (length s) \<longrightarrow>
            int (length (truncate s mx)) = mx \<and>
            take (nat (mx - 3)) (truncate s mx) = take (nat (mx - 3)) s \<and>
            drop (nat (mx - 3)) (truncate s mx) = S ''...'')"
proof (intro conjI impI)
  assume "int (length s) \<le> mx"
  then show "truncate s mx = s"
    by (simp add: truncate_def)
next
  assume long: "mx < int (length s)"
  have keep: "length (take (nat (mx - 3)) s) = nat (mx - 3)"
    using long assms by simp
  have eq: "truncate s mx = take (nat (mx - 3)) s @ S ''...''"
    using long assms by (simp add: truncate_def slice0_def)
  show "int (length (truncate s mx)) = mx"
    using assms by (simp only: eq length_append keep length_S) simp
  show "take (nat (mx - 3)) (truncate s mx) = take (nat (mx - 3)) s"
    using keep by (simp only: eq take_append) simp
  show "drop (nat (mx - 3)) (truncate s mx) = S ''...''"
    using keep by (simp only: eq drop_append) simp
qed

theorem truncate_spec_witness:
  "(3::int) \<le> 8 \<and>
   int (length (truncate (S ''hello world'') 8)) = 8 \<and>
   take 5 (truncate (S ''hello world'') 8) = S ''hello'' \<and>
   drop 5 (truncate (S ''hello world'') 8) = S ''...'' \<and>
   truncate (S ''hello'') 8 = S ''hello''"
  using truncate_spec [of 8 "S ''hello world''"] truncate_spec [of 8 "S ''hello''"]
  by (simp add: S_def)

section \<open>Properties of the collector\<close>

subsection \<open>Insertion-ordered sets\<close>

lemma set_add_distinct: "distinct xs \<Longrightarrow> distinct (set_add x xs)"
  by (simp add: set_add_def)

lemma foldl_set_add_first:
  "foldl (\<lambda>fs p. set_add p fs) acc ps = acc @ first_occurrences (filter (\<lambda>p. p \<notin> set acc) ps)"
proof (induction ps arbitrary: acc)
  case Nil
  then show ?case by simp
next
  case (Cons p ps)
  show ?case
  proof (cases "p \<in> set acc")
    case True
    then show ?thesis using Cons.IH [of acc] by (simp add: set_add_def)
  next
    case False
    have f: "filter (\<lambda>pa. pa \<noteq> p \<and> pa \<notin> set acc) ps
               = filter (\<lambda>x. x \<notin> set acc \<and> x \<noteq> p) ps"
      by (rule filter_cong) auto
    show ?thesis
      using False Cons.IH [of "acc @ [p]"] by (simp add: set_add_def f)
  qed
qed

lemma set_first_occurrences [simp]: "set (first_occurrences xs) = set xs"
  by (induction xs rule: first_occurrences.induct) auto

lemma distinct_first_occurrences [simp]: "distinct (first_occurrences xs)"
  by (induction xs rule: first_occurrences.induct) auto

subsection \<open>Modified files\<close>

lemma files_add:
  "files (add category summ opts c) =
     foldl (\<lambda>fs p. set_add p fs) (files c) (tracked_paths (Add category summ opts))"
  by (simp add: add_def tracked_paths_def Let_def split: option.splits)

lemma files_trackFile:
  "files (trackFile p c) =
     foldl (\<lambda>fs p. set_add p fs) (files c) (tracked_paths (TrackFile p :: 'd call))"
  by (simp add: trackFile_def tracked_paths_def)

lemma files_apply_call:
  "files (apply_call c x) = foldl (\<lambda>fs p. set_add p fs) (files c) (tracked_paths x)"
  by (cases x) (simp_all add: files_add files_trackFile)

lemma files_run:
  "files (run calls c) =
     foldl (\<lambda>fs p. set_add p fs) (files c) (concat (map tracked_paths calls))"
  unfolding run_def
  by (induction calls arbitrary: c) (simp_all add: files_apply_call)

lemma new_empty: "SummaryCollector_new config = Some c0 \<Longrightarrow> files c0 = [] \<and> data c0 = []"
  by (auto simp: SummaryCollector_new_def split: sum.splits option.splits)

lemma limits_standard:
  "buildCategoryLimits STANDARD_PRESET = Some [
     (S ''Bash'', 8), (S ''shell'', 8), (S ''Write'', 5), (S ''write'', 5),
     (S ''Edit'', 5), (S ''edit'', 5), (S ''Read'', 20), (S ''read'', 20),
     (S ''Grep'', 10), (S ''Glob'', 10), (S ''WebSearch'', 10), (S ''WebFetch'', 10),
     (S ''Task'', 5), (S ''TaskOutput'', 5), (S ''AskUserQuestion'', 5)]"
  by (simp add: buildCategoryLimits_def number_at_def STANDARD_PRESET_def lit objs)

lemma getPreset_known:
  "getPreset (S ''minimal'') = Inr MINIMAL_PRESET"
  "getPreset (S ''standard'') = Inr STANDARD_PRESET"
  "getPreset (S ''verbose'') = Inr VERBOSE_PRESET"
  "getPreset (S ''full'') = Inr FULL_PRESET"
  by (simp_all add: getPreset_def PRESETS_def S_def get_prop_def truthy_def structuredClone_def
      MINIMAL_PRESET_def STANDARD_PRESET_def VERBOSE_PRESET_def FULL_PRESET_def)

text \<open>
  Claim C8. Whatever sequence of \<open>add\<close> and \<open>trackFile\<close> calls a fresh collector
  receives, \<open>getFilesModified\<close> holds each path at most once: it is the list of the
  recorded paths in the order of their first occurrence, however many write or edit
  invocations supplied the same path.
\<close>

theorem getFilesModified_distinct:
  assumes "SummaryCollector_new config = Some c0"
  shows "distinct (getFilesModified (run calls c0)) \<and>
         getFilesModified (run calls c0) = first_occurrences (concat (map tracked_paths calls))"
  using new_empty [OF assms]
  by (simp add: getFilesModified_def files_run foldl_set_add_first)

theorem getFilesModified_distinct_witness:
  "\<exists>c0 :: unit SummaryCollector.
      SummaryCollector_new None = Some c0 \<and>
      getFilesModified (run [
         Add (S ''Write'') (S ''write a.ts'')
           (Some \<lparr>opt_data = None, filePath = Some (S ''a.ts''), isWrite = True, isError = False\<rparr>),
         Add (S ''Edit'') (S ''edit a.ts'')
           (Some \<lparr>opt_data = None, filePath = Some (S ''a.ts''), isWrite = True, isError = False\<rparr>),
         TrackFile (S ''b.ts''),
         Add (S ''Read'') (S ''read c.ts'')
           (Some \<lparr>opt_data = None, filePath = Some (S ''c.ts''), isWrite = False, isError = False\<rparr>),
         TrackFile (S ''a.ts'')] c0) = [S ''a.ts'', S ''b.ts'']"
proof -
  obtain c0 :: "unit SummaryCollector" where new: "SummaryCollector_new None = Some c0"
    by (simp add: SummaryCollector_new_def getPreset_known limits_standard)
  let ?calls = "[
         Add (S ''Write'') (S ''write a.ts'')
           (Some \<lparr>opt_data = None, filePath = Some (S ''a.ts''), isWrite = True, isError = False\<rparr>),
         Add (S ''Edit'') (S ''edit a.ts'')
           (Some \<lparr>opt_data = None, filePath = Some (S ''a.ts''), isWrite = True, isError = False\<rparr>),
         TrackFile (S ''b.ts''),
         Add (S ''Read'') (S ''read c.ts'')
           (Some \<lparr>opt_data = None, filePath = Some (S ''c.ts''), isWrite = False, isError = False\<rparr>),
         TrackFile (S ''a.ts'')] :: unit call list"
  have "getFilesModified (run ?calls c0) = first_occurrences (concat (map tracked_paths ?calls))"
    using getFilesModified_distinct [OF new, of ?calls] by (rule conjunct2)
  also have "\<dots> = [S ''a.ts'', S ''b.ts'']"
    by (simp add: tracked_paths_def S_def)
  finally have files: "getFilesModified (run ?calls c0) = [S ''a.ts'', S ''b.ts'']" .
  show ?thesis
  proof (intro exI conjI)
    show "SummaryCollector_new None = Some c0" by (rule new)
    show "getFilesModified (run ?calls c0) = [S ''a.ts'', S ''b.ts'']" by (rule files)
  qed
qed

subsection \<open>The map of entries\<close>

lemma keys_modify [simp]: "map fst (modify k f m) = map fst m"
  by (induction m) auto

lemma keys_ensure: "map fst (ensure k v m) = set_add k (map fst m)"
  by (simp add: ensure_def set_add_def)

lemma map_of_modify:
  "map_of (modify k f m) k' = (if k' = k then map_option f (map_of m k) else map_of m k')"
  by (induction m) auto

lemma map_of_ensure:
  "map_of (ensure k v m) k' = (if k' = k \<and> map_of m k = None then Some v else map_of m k')"
proof (cases "k \<in> fst ` set m")
  case True
  then have "map_of m k \<noteq> None" by (simp add: map_of_eq_None_iff)
  with True show ?thesis by (simp add: ensure_def)
next
  case False
  then have "map_of m k = None" by (simp add: map_of_eq_None_iff)
  with False show ?thesis by (simp add: ensure_def map_add_def split: option.splits)
qed

lemma cap_of_nonneg: "caps_ok limits \<Longrightarrow> 0 \<le> cap_of limits k"
proof -
  assume ok: "caps_ok limits"
  show ?thesis
  proof (cases "map_of limits k")
    case None
    then show ?thesis by (simp add: cap_of_def DEFAULT_SAMPLE_LIMIT_def)
  next
    case (Some n)
    then have "(k, n) \<in> set limits" by (rule map_of_SomeD)
    with ok have "0 \<le> n" by (auto simp: caps_ok_def list_all_iff)
    with Some show ?thesis by (simp add: cap_of_def)
  qed
qed

lemma cap_of_int: "caps_ok limits \<Longrightarrow> cap_of limits k \<in> \<int>"
proof -
  assume ok: "caps_ok limits"
  show ?thesis
  proof (cases "map_of limits k")
    case None
    then show ?thesis by (simp add: cap_of_def DEFAULT_SAMPLE_LIMIT_def)
  next
    case (Some n)
    then have "(k, n) \<in> set limits" by (rule map_of_SomeD)
    with ok have "n \<in> \<int>" by (auto simp: caps_ok_def list_all_iff)
    with Some show ?thesis by (simp add: cap_of_def)
  qed
qed

lemma below_sample_limit:
  assumes "below n (sample_limit limits k)"
  shows "of_nat n < cap_of limits k"
  using assms
  by (auto simp: sample_limit_def cap_of_def split: option.splits if_splits)

lemma below_step:
  assumes ok: "caps_ok limits" and b: "below n (sample_limit limits k)"
  shows "of_nat (Suc n) \<le> cap_of limits k"
proof -
  have lt: "of_nat n < cap_of limits k" using b by (rule below_sample_limit)
  obtain z where z: "cap_of limits k = of_int z"
    using cap_of_int [OF ok, of k] by (rule Ints_cases)
  from lt z have "int n < z" by (metis of_int_less_iff of_int_of_nat_eq)
  then have "int (Suc n) \<le> z" by simp
  then have "(of_int (int (Suc n)) :: rat) \<le> of_int z" by (simp only: of_int_le_iff)
  then show ?thesis using z by simp
qed

lemma samples_add_entry:
  assumes ok: "caps_ok limits" and le: "of_nat (length (samples e)) \<le> cap_of limits k"
  shows "of_nat (length (samples (add_entry (sample_limit limits k) summ opts e))) \<le> cap_of limits k"
proof (cases "below (length (samples e)) (sample_limit limits k)")
  case True
  then have "of_nat (Suc (length (samples e))) \<le> cap_of limits k"
    using ok by (intro below_step)
  with True show ?thesis by (simp add: add_entry_def Let_def)
next
  case False
  with le show ?thesis by (simp add: add_entry_def Let_def)
qed

lemma count_add_entry [simp]: "count (add_entry mx summ opts e) = Suc (count e)"
  by (simp add: add_entry_def Let_def)

lemma data_add:
  "data (add category summ opts c) =
     modify category (add_entry (sample_limit (categoryLimits c) category) summ opts)
       (ensure category \<lparr>count = 0, errorCount = 0, samples = []\<rparr> (data c))"
  by (simp add: add_def Let_def split: option.splits)

lemma limits_add [simp]: "categoryLimits (add category summ opts c) = categoryLimits c"
  by (simp add: add_def Let_def split: option.splits)

lemma limits_apply_call [simp]: "categoryLimits (apply_call c x) = categoryLimits c"
  by (cases x) (simp_all add: trackFile_def)

lemma limits_run [simp]: "categoryLimits (run calls c) = categoryLimits c"
  unfolding run_def by (induction calls arbitrary: c) simp_all

lemma bounded_modify:
  assumes "bounded limits m"
    and "\<And>e. of_nat (length (samples e)) \<le> cap_of limits k \<Longrightarrow>
              of_nat (length (samples (f e))) \<le> cap_of limits k"
  shows "bounded limits (modify k f m)"
proof -
  have "list_all (\<lambda>(k, e). of_nat (length (samples e)) \<le> cap_of limits k) m \<Longrightarrow>
        list_all (\<lambda>(k, e). of_nat (length (samples e)) \<le> cap_of limits k) (modify k f m)"
    using assms(2) by (induction m) auto
  with assms(1) show ?thesis by (simp add: bounded_def)
qed

lemma bounded_ensure:
  assumes "bounded limits m" and "caps_ok limits"
  shows "bounded limits (ensure k \<lparr>count = 0, errorCount = 0, samples = []\<rparr> m)"
  using assms cap_of_nonneg [of limits k]
  by (auto simp: bounded_def ensure_def)

lemma bounded_add:
  assumes "caps_ok (categoryLimits c)" and "bounded (categoryLimits c) (data c)"
  shows "bounded (categoryLimits c) (data (add category summ opts c))"
  unfolding data_add
  by (intro bounded_modify bounded_ensure samples_add_entry assms)

lemma bounded_apply_call:
  assumes "caps_ok (categoryLimits c)" and "bounded (categoryLimits c) (data c)"
  shows "bounded (categoryLimits c) (data (apply_call c x))"
  using assms by (cases x) (simp_all add: bounded_add trackFile_def)

lemma bounded_run:
  assumes "caps_ok (categoryLimits c)" and "bounded (categoryLimits c) (data c)"
  shows "bounded (categoryLimits c) (data (run calls c))"
  using assms unfolding run_def
proof (induction calls arbitrary: c)
  case Nil
  then show ?case by simp
next
  case (Cons x calls)
  have "caps_ok (categoryLimits (apply_call c x))"
    using Cons.prems by simp
  moreover have "bounded (categoryLimits (apply_call c x)) (data (apply_call c x))"
    using Cons.prems by (simp add: bounded_apply_call)
  ultimately have
    "bounded (categoryLimits (apply_call c x)) (data (foldl apply_call (apply_call c x) calls))"
    by (rule Cons.IH)
  then show ?case by simp
qed

lemma count_at_add:
  "count_at (data (add category summ opts c)) k =
     count_at (data c) k + (if k = category then 1 else 0)"
  by (auto simp: data_add count_at_def map_of_modify map_of_ensure split: option.splits)

lemma count_at_apply_call:
  "count_at (data (apply_call c x)) k = count_at (data c) k + count_list (added_category x) k"
  by (cases x) (simp_all add: count_at_add added_category_def trackFile_def)

lemma count_at_run:
  "count_at (data (run calls c)) k = count_at (data c) k + adds_of k calls"
  unfolding run_def adds_of_def
  by (induction calls arbitrary: c) (simp_all add: count_at_apply_call)

lemma keys_apply_call:
  "map fst (data (apply_call c x)) =
     foldl (\<lambda>ks k. set_add k ks) (map fst (data c)) (added_category x)"
  by (cases x) (simp_all add: data_add keys_ensure added_category_def trackFile_def)

lemma keys_run:
  "map fst (data (run calls c)) =
     foldl (\<lambda>ks k. set_add k ks) (map fst (data c)) (concat (map added_category calls))"
  unfolding run_def
  by (induction calls arbitrary: c) (simp_all add: keys_apply_call)

lemma summary_entry:
  assumes "u \<in> set (getSummaries c)" and "distinct (map fst (data c))"
  shows "\<exists>e. map_of (data c) (u_name u) = Some e \<and> u_count u = count e \<and> u_samples u = samples e"
proof -
  from assms(1) obtain k e where ke: "(k, e) \<in> set (data c)"
    and u: "u_name u = k" "u_count u = count e" "u_samples u = samples e"
    by (auto simp: getSummaries_def)
  from ke assms(2) have "map_of (data c) k = Some e" by simp
  with u show ?thesis by simp
qed

lemma names_getSummaries: "map u_name (getSummaries c) = map fst (data c)"
  by (simp add: getSummaries_def case_prod_beta cong: map_cong)

lemma summaries_first_seen:
  "data c0 = [] \<Longrightarrow>
   map u_name (getSummaries (run calls c0)) = first_occurrences (concat (map added_category calls))"
  by (simp add: names_getSummaries keys_run foldl_set_add_first)

lemma collector_invariant:
  fixes c0 :: "'d SummaryCollector"
  assumes ok: "caps_ok (categoryLimits c0)" and empty: "data c0 = []"
    and u: "u \<in> set (getSummaries (run calls c0))"
  shows "of_nat (length (u_samples u)) \<le> cap_of (categoryLimits c0) (u_name u) \<and>
         u_count u = adds_of (u_name u) calls"
proof -
  have b: "bounded (categoryLimits c0) (data (run calls c0))"
    using ok empty by (intro bounded_run) (simp_all add: bounded_def)
  then have d: "distinct (map fst (data (run calls c0)))"
    by (simp add: bounded_def)
  from summary_entry [OF u d] obtain e where
    e: "map_of (data (run calls c0)) (u_name u) = Some e"
       "u_count u = count e" "u_samples u = samples e"
    by blast
  from e(1) have "(u_name u, e) \<in> set (data (run calls c0))" by (rule map_of_SomeD)
  with b have "of_nat (length (samples e)) \<le> cap_of (categoryLimits c0) (u_name u)"
    by (auto simp: bounded_def list_all_iff)
  moreover have "count e = adds_of (u_name u) calls"
    using count_at_run [of calls c0 "u_name u"] e(1) empty by (simp add: count_at_def)
  ultimately show ?thesis using e by simp
qed

subsection \<open>Validated configurations\<close>

lemma keep_pair_defined: "r \<noteq> JUndefined \<Longrightarrow> keep_pair input k r = [(k, r)]"
  by (simp add: keep_pair_def)

lemma keep_pair_other: "k' \<noteq> k \<Longrightarrow> map_of (keep_pair input k r @ rest) k' = map_of rest k'"
  by (simp add: keep_pair_def)

lemma parse_shape_lookup:
  assumes "parse_shape shape input = Some known"
    and "distinct (map fst shape)" and "(k, s) \<in> set shape"
  shows "\<exists>r. parse s (get_prop input k) = Some r \<and> (r \<noteq> JUndefined \<longrightarrow> map_of known k = Some r)"
  using assms
proof (induction shape arbitrary: known)
  case Nil
  then show ?case by simp
next
  case (Cons a shape)
  obtain k0 s0 where a: "a = (k0, s0)" by (cases a)
  from Cons.prems(1) a obtain r0 rest where
    r0: "parse s0 (get_prop input k0) = Some r0" and
    rest: "parse_shape shape input = Some rest" and
    known: "known = keep_pair input k0 r0 @ rest"
    by (auto split: option.splits)
  show ?case
  proof (cases "k = k0")
    case True
    with Cons.prems(2,3) a have "s = s0" by (auto simp: rev_image_eqI)
    with True r0 known show ?thesis by (auto simp: keep_pair_defined)
  next
    case False
    with Cons.prems(3) a have mem: "(k, s) \<in> set shape" by auto
    from Cons.prems(2) have "distinct (map fst shape)" by simp
    from Cons.IH [OF rest this mem] obtain r where
      "parse s (get_prop input k) = Some r" "r \<noteq> JUndefined \<longrightarrow> map_of rest k = Some r"
      by blast
    moreover have "map_of known k = map_of rest k"
      unfolding known using False by (rule keep_pair_other)
    ultimately show ?thesis by simp
  qed
qed

lemma parse_object:
  assumes "parse (ZObject shape None) v = Some r"
  shows "\<exists>ps known. v = JObj ps \<and> r = JObj known \<and> parse_shape shape ps = Some known"
  using assms by (cases v) (auto split: option.splits)

lemma parse_cap:
  assumes "parse (ZDefault (ZNumber [IsInt, Min 0]) (JNum d)) v = Some r"
    and "0 \<le> d" and "d \<in> \<int>"
  shows "\<exists>n. r = JNum n \<and> 0 \<le> n \<and> n \<in> \<int>"
  using assms by (cases v) (auto split: if_splits)

lemma number_at_parsed:
  assumes p: "parse (ZObject shape None) v = Some cfg"
    and d1: "distinct (map fst shape)"
    and m1: "(S a, ZObject shape2 None) \<in> set shape"
    and d2: "distinct (map fst shape2)"
    and m2: "cap b d \<in> set shape2"
    and d: "0 \<le> d" "d \<in> \<int>"
  shows "\<exists>n. number_at cfg a b = Some n \<and> 0 \<le> n \<and> n \<in> \<int>"
proof -
  from parse_object [OF p] obtain ps known where
    v: "v = JObj ps" and cfg: "cfg = JObj known" and sh: "parse_shape shape ps = Some known"
    by blast
  from parse_shape_lookup [OF sh d1 m1] obtain r where
    r: "parse (ZObject shape2 None) (get_prop ps (S a)) = Some r"
       "r \<noteq> JUndefined \<longrightarrow> map_of known (S a) = Some r"
    by blast
  from parse_object [OF r(1)] obtain ps2 known2 where
    r2: "r = JObj known2" and sh2: "parse_shape shape2 ps2 = Some known2"
    by blast
  from r(2) r2 have k1: "map_of known (S a) = Some (JObj known2)" by simp
  from m2 have m2': "(S b, ZDefault (ZNumber [IsInt, Min 0]) (JNum d)) \<in> set shape2"
    by (simp add: cap_def)
  from parse_shape_lookup [OF sh2 d2 m2'] obtain x where
    x: "parse (ZDefault (ZNumber [IsInt, Min 0]) (JNum d)) (get_prop ps2 (S b)) = Some x"
       "x \<noteq> JUndefined \<longrightarrow> map_of known2 (S b) = Some x"
    by blast
  from parse_cap [OF x(1) d] obtain n where n: "x = JNum n" "0 \<le> n" "n \<in> \<int>"
    by blast
  with x(2) have k2: "map_of known2 (S b) = Some (JNum n)" by simp
  have "number_at cfg a b = Some n"
    by (simp add: number_at_def cfg own_props_def get_prop_def k1 k2)
  with n show ?thesis by simp
qed

lemma distinct_top:
  "distinct (map fst [
     (S ''preset'', ZDefault PresetNameSchema (JStr (S ''standard''))),
     cap ''recentMessages'' 10,
     cap ''maxMessageChars'' 500,
     (S ''shell'', ShellConfigSchema),
     (S ''read'', ReadConfigSchema),
     (S ''write'', WriteConfigSchema),
     (S ''edit'', EditConfigSchema),
     (S ''grep'', GrepConfigSchema),
     (S ''mcp'', McpConfigSchema),
     (S ''task'', TaskConfigSchema),
     (S ''thinking'', ThinkingConfigSchema),
     (S ''compactSummary'', CompactSummaryConfigSchema),
     (S ''pendingTasks'', PendingTasksConfigSchema),
     (S ''agents'', AgentsConfigSchema)])"
  by (simp add: S_def cap_def)

lemma resolved_field:
  assumes "parse VerbosityConfigSchema raw = Some cfg"
    and "(S a, sub) \<in> set [
     (S ''preset'', ZDefault PresetNameSchema (JStr (S ''standard''))),
     cap ''recentMessages'' 10,
     cap ''maxMessageChars'' 500,
     (S ''shell'', ShellConfigSchema),
     (S ''read'', ReadConfigSchema),
     (S ''write'', WriteConfigSchema),
     (S ''edit'', EditConfigSchema),
     (S ''grep'', GrepConfigSchema),
     (S ''mcp'', McpConfigSchema),
     (S ''task'', TaskConfigSchema),
     (S ''thinking'', ThinkingConfigSchema),
     (S ''compactSummary'', CompactSummaryConfigSchema),
     (S ''pendingTasks'', PendingTasksConfigSchema),
     (S ''agents'', AgentsConfigSchema)]"
    and "sub = ZObject shape2 None"
    and "distinct (map fst shape2)"
    and "cap b d \<in> set shape2"
    and "0 \<le> d" "d \<in> \<int>"
  shows "\<exists>n. number_at cfg a b = Some n \<and> 0 \<le> n \<and> n \<in> \<int>"
  using assms(1) [unfolded VerbosityConfigSchema_def] distinct_top
    assms(2) [unfolded assms(3)] assms(4-)
  by (rule number_at_parsed)

lemma resolved_shell:
  assumes "parse VerbosityConfigSchema raw = Some cfg"
  shows "\<exists>n. number_at cfg ''shell'' ''maxSamples'' = Some n \<and> 0 \<le> n \<and> n \<in> \<int>"
  by (rule resolved_field [OF assms, where sub = ShellConfigSchema and d = 8],
      simp add: S_def cap_def, rule ShellConfigSchema_def, simp_all add: S_def cap_def toggle_def)

lemma resolved_write:
  assumes "parse VerbosityConfigSchema raw = Some cfg"
  shows "\<exists>n. number_at cfg ''write'' ''maxSamples'' = Some n \<and> 0 \<le> n \<and> n \<in> \<int>"
  by (rule resolved_field [OF assms, where sub = WriteConfigSchema and d = 5],
      simp add: S_def cap_def, rule WriteConfigSchema_def, simp_all add: S_def cap_def toggle_def)

lemma resolved_edit:
  assumes "parse VerbosityConfigSchema raw = Some cfg"
  shows "\<exists>n. number_at cfg ''edit'' ''maxSamples'' = Some n \<and> 0 \<le> n \<and> n \<in> \<int>"
  by (rule resolved_field [OF assms, where sub = EditConfigSchema and d = 5],
      simp add: S_def cap_def, rule EditConfigSchema_def, simp_all add: S_def cap_def toggle_def)

lemma resolved_read:
  assumes "parse VerbosityConfigSchema raw = Some cfg"
  shows "\<exists>n. number_at cfg ''read'' ''maxSamples'' = Some n \<and> 0 \<le> n \<and> n \<in> \<int>"
  by (rule resolved_field [OF assms, where sub = ReadConfigSchema and d = 20],
      simp add: S_def cap_def, rule ReadConfigSchema_def, simp_all add: S_def cap_def toggle_def)

lemma resolved_grep:
  assumes "parse VerbosityConfigSchema raw = Some cfg"
  shows "\<exists>n. number_at cfg ''grep'' ''maxSamples'' = Some n \<and> 0 \<le> n \<and> n \<in> \<int>"
  by (rule resolved_field [OF assms, where sub = GrepConfigSchema and d = 10],
      simp add: S_def cap_def, rule GrepConfigSchema_def, simp_all add: S_def cap_def toggle_def)

lemma resolved_mcp:
  assumes "parse VerbosityConfigSchema raw = Some cfg"
  shows "\<exists>n. number_at cfg ''mcp'' ''maxSamplesPerNamespace'' = Some n \<and> 0 \<le> n \<and> n \<in> \<int>"
  by (rule resolved_field [OF assms, where sub = McpConfigSchema and d = 5],
      simp add: S_def cap_def, rule McpConfigSchema_def, simp_all add: S_def cap_def toggle_def)

lemma resolved_limits:
  assumes "parse VerbosityConfigSchema raw = Some cfg"
  shows "\<exists>limits. buildCategoryLimits cfg = Some limits \<and> caps_ok limits"
proof -
  from resolved_shell [OF assms] obtain n1 where
    n1: "number_at cfg ''shell'' ''maxSamples'' = Some n1" "0 \<le> n1" "n1 \<in> \<int>" by blast
  from resolved_write [OF assms] obtain n2 where
    n2: "number_at cfg ''write'' ''maxSamples'' = Some n2" "0 \<le> n2" "n2 \<in> \<int>" by blast
  from resolved_edit [OF assms] obtain n3 where
    n3: "number_at cfg ''edit'' ''maxSamples'' = Some n3" "0 \<le> n3" "n3 \<in> \<int>" by blast
  from resolved_read [OF assms] obtain n4 where
    n4: "number_at cfg ''read'' ''maxSamples'' = Some n4" "0 \<le> n4" "n4 \<in> \<int>" by blast
  from resolved_grep [OF assms] obtain n5 where
    n5: "number_at cfg ''grep'' ''maxSamples'' = Some n5" "0 \<le> n5" "n5 \<in> \<int>" by blast
  from resolved_mcp [OF assms] obtain n6 where
    n6: "number_at cfg ''mcp'' ''maxSamplesPerNamespace'' = Some n6" "0 \<le> n6" "n6 \<in> \<int>" by blast
  show ?thesis
    by (simp add: buildCategoryLimits_def caps_ok_def n1 n2 n3 n4 n5 n6)
qed

lemma parse_minimal: "parse VerbosityConfigSchema MINIMAL_PRESET = Some MINIMAL_PRESET"
  by (simp add: schemas MINIMAL_PRESET_def lit get_prop_def)

lemma limits_minimal:
  "buildCategoryLimits MINIMAL_PRESET = Some [
     (S ''Bash'', 3), (S ''shell'', 3), (S ''Write'', 3), (S ''write'', 3),
     (S ''Edit'', 3), (S ''edit'', 3), (S ''Read'', 5), (S ''read'', 5),
     (S ''Grep'', 3), (S ''Glob'', 3), (S ''WebSearch'', 3), (S ''WebFetch'', 3),
     (S ''Task'', 1), (S ''TaskOutput'', 1), (S ''AskUserQuestion'', 1)]"
  by (simp add: buildCategoryLimits_def number_at_def MINIMAL_PRESET_def lit objs)

text \<open>
  Claim C1. Under any resolved configuration (a tree the schema validation returned),
  the collector is built, and after every sequence of calls each category's summary
  holds at most as many samples as the category's configured cap (the default 5 when
  the category has no configured cap), while its count is the number of \<open>add\<close> calls for
  that category; the summaries are one per category, in first-seen order.
\<close>

theorem collector_caps_and_counts:
  assumes "parse VerbosityConfigSchema raw = Some cfg"
  shows "\<exists>c0 :: 'd SummaryCollector.
           SummaryCollector_new (Some cfg) = Some c0 \<and>
           buildCategoryLimits cfg = Some (categoryLimits c0) \<and>
           (\<forall>calls. \<forall>u \<in> set (getSummaries (run calls c0)).
              of_nat (length (u_samples u)) \<le> cap_of (categoryLimits c0) (u_name u) \<and>
              u_count u = adds_of (u_name u) calls) \<and>
           (\<forall>calls. map u_name (getSummaries (run calls c0)) =
              first_occurrences (concat (map added_category calls)))"
proof -
  from resolved_limits [OF assms] obtain limits where
    l: "buildCategoryLimits cfg = Some limits" and ok: "caps_ok limits"
    by blast
  define c0 :: "'d SummaryCollector" where
    "c0 = \<lparr>data = [], files = [], categoryLimits = limits\<rparr>"
  have new: "SummaryCollector_new (Some cfg) = Some c0"
    by (simp add: SummaryCollector_new_def l c0_def)
  have facts: "caps_ok (categoryLimits c0)" "data c0 = []"
    using ok by (simp_all add: c0_def)
  then have "\<And>calls u. u \<in> set (getSummaries (run calls c0)) \<Longrightarrow>
              of_nat (length (u_samples u)) \<le> cap_of (categoryLimits c0) (u_name u) \<and>
              u_count u = adds_of (u_name u) calls"
    by (rule collector_invariant)
  then have inv: "\<forall>calls. \<forall>u \<in> set (getSummaries (run calls c0)).
              of_nat (length (u_samples u)) \<le> cap_of (categoryLimits c0) (u_name u) \<and>
              u_count u = adds_of (u_name u) calls"
    by blast
  have names: "\<forall>calls. map u_name (getSummaries (run calls c0)) =
              first_occurrences (concat (map added_category calls))"
    using facts(2) by (simp add: summaries_first_seen)
  have "buildCategoryLimits cfg = Some (categoryLimits c0)"
    using l by (simp add: c0_def)
  with new inv names show ?thesis by blast
qed

theorem collector_caps_and_counts_witness:
  "parse VerbosityConfigSchema MINIMAL_PRESET = Some MINIMAL_PRESET \<and>
   (\<exists>c0 :: unit SummaryCollector.
      SummaryCollector_new (Some MINIMAL_PRESET) = Some c0 \<and>
      map (\<lambda>u. (u_name u, u_count u, length (u_samples u)))
        (getSummaries (run [Add (S ''Task'') (S ''a'') None, Add (S ''zip'') (S ''b'') None,
                            Add (S ''Task'') (S ''c'') None, Add (S ''Task'') (S ''d'') None,
                            Add (S ''toString'') (S ''e'') None] c0))
      = [(S ''Task'', 3, 1), (S ''zip'', 1, 1), (S ''toString'', 1, 0)] \<and>
      cap_of (categoryLimits c0) (S ''Task'') = 1 \<and>
      cap_of (categoryLimits c0) (S ''zip'') = 5 \<and>
      cap_of (categoryLimits c0) (S ''toString'') = 5)"
proof -
  from collector_caps_and_counts [OF parse_minimal]
  obtain c0 :: "unit SummaryCollector" where
    new: "SummaryCollector_new (Some MINIMAL_PRESET) = Some c0" and
    lim: "buildCategoryLimits MINIMAL_PRESET = Some (categoryLimits c0)"
    by blast
  from new have c0: "data c0 = []" "files c0 = []"
    using new_empty by blast+
  from lim have l: "categoryLimits c0 = [
     (S ''Bash'', 3), (S ''shell'', 3), (S ''Write'', 3), (S ''write'', 3),
     (S ''Edit'', 3), (S ''edit'', 3), (S ''Read'', 5), (S ''read'', 5),
     (S ''Grep'', 3), (S ''Glob'', 3), (S ''WebSearch'', 3), (S ''WebFetch'', 3),
     (S ''Task'', 1), (S ''TaskOutput'', 1), (S ''AskUserQuestion'', 1)]"
    by (simp add: limits_minimal)
  have sums: "map (\<lambda>u. (u_name u, u_count u, length (u_samples u)))
        (getSummaries (run [Add (S ''Task'') (S ''a'') None, Add (S ''zip'') (S ''b'') None,
                            Add (S ''Task'') (S ''c'') None, Add (S ''Task'') (S ''d'') None,
                            Add (S ''toString'') (S ''e'') None] c0))
      = [(S ''Task'', 3, 1), (S ''zip'', 1, 1), (S ''toString'', 1, 0)]"
    by (simp add: collector_eval c0 l)
  have caps: "cap_of (categoryLimits c0) (S ''Task'') = 1"
    "cap_of (categoryLimits c0) (S ''zip'') = 5" "cap_of (categoryLimits c0) (S ''toString'') = 5"
    by (simp_all add: cap_of_def l S_def DEFAULT_SAMPLE_LIMIT_def)
  show ?thesis
  proof (intro exI conjI)
    show "parse VerbosityConfigSchema MINIMAL_PRESET = Some MINIMAL_PRESET" by (rule parse_minimal)
    show "SummaryCollector_new (Some MINIMAL_PRESET) = Some c0" by (rule new)
    show "map (\<lambda>u. (u_name u, u_count u, length (u_samples u)))
        (getSummaries (run [Add (S ''Task'') (S ''a'') None, Add (S ''zip'') (S ''b'') None,
                            Add (S ''Task'') (S ''c'') None, Add (S ''Task'') (S ''d'') None,
                            Add (S ''toString'') (S ''e'') None] c0))
      = [(S ''Task'', 3, 1), (S ''zip'', 1, 1), (S ''toString'', 1, 0)]" by (rule sums)
    show "cap_of (categoryLimits c0) (S ''Task'') = 1" by (rule caps(1))
    show "cap_of (categoryLimits c0) (S ''zip'') = 5" by (rule caps(2))
    show "cap_of (categoryLimits c0) (S ''toString'') = 5" by (rule caps(3))
  qed
qed

section \<open>Properties of the extraction pipeline\<close>

lemma exit_code_pnpm: "extractExitCode (Some pnpm_output) = Some 0"
  by (simp add: extractExitCode_def pnpm_output_def S_def exit_match_here_def ci_prefix_def
      lower_def is_ws_def is_digit_def parseInt_def)

lemma shellSummary_pnpm:
  "shellSummary (S ''pnpm test'') (Some pnpm_output) = S ''$ pnpm test'' @ arrow @ S ''exit 0''"
  by (simp add: shellSummary_def exit_code_pnpm truncate_def S_def)

lemma includes_pnpm:
  "includes_js (S ''$ pnpm test'' @ arrow @ S ''exit 0'') (S ''$ pnpm test'')"
  by (simp add: S_def)

lemma index_pnpm:
  "result_index [(Assistant, [tool_invocation name args cid]),
                 (User, [tool_result cid pnpm_output False])] cid = Some (pnpm_output, False)"
  by (simp add: result_index_def RESULT_CEILING_def pnpm_output_def)

text \<open>
  Claim C7. A transcript with one shell invocation whose command is \<open>pnpm test\<close> and
  whose correlated result text is \<open>exited with code: 0\<close>, a newline and \<open>OK\<close>, extracted
  under the standard configuration, gives exactly one summary, for the category
  \<open>shell\<close>, with count 1 and no error count; its one sample's summary is
  \<open>$ pnpm test\<close>, the arrow and \<open>exit 0\<close>, so it contains \<open>$ pnpm test\<close> and the parsed
  exit code 0. No file is recorded as modified.
\<close>

theorem shell_invocation_summary:
  assumes "classify name = Some Shell" and "command_of args = S ''pnpm test''"
  shows "extractToolData classify command_of shell_data other
           [(Assistant, [tool_invocation name args cid]),
            (User, [tool_result cid pnpm_output False])]
           STANDARD_PRESET
         = Some ([\<lparr>u_name = S ''shell'', u_count = 1, u_errorCount = None,
                   u_samples = [\<lparr>summary = S ''$ pnpm test'' @ arrow @ S ''exit 0'',
                                 sample_data = Some (shell_data (S ''pnpm test'')
                                   (Some pnpm_output) False)\<rparr>]\<rparr>],
                 []) \<and>
         includes_js (S ''$ pnpm test'' @ arrow @ S ''exit 0'') (S ''$ pnpm test'') \<and>
         extractExitCode (Some pnpm_output) = Some 0"
proof -
  let ?msgs = "[(Assistant, [tool_invocation name args cid]),
                (User, [tool_result cid pnpm_output False])]"
  have calls: "concat (map (invocation_calls classify command_of shell_data other (result_index ?msgs))
                 (concat (map snd ?msgs)))
     = [Add (S ''shell'') (S ''$ pnpm test'' @ arrow @ S ''exit 0'')
          (Some \<lparr>opt_data = Some (shell_data (S ''pnpm test'') (Some pnpm_output) False),
                 filePath = None, isWrite = False, isError = False\<rparr>)]"
    using assms by (simp add: index_pnpm shellSummary_pnpm)
  have lim: "sample_limit [
     (S ''Bash'', 8), (S ''shell'', 8), (S ''Write'', 5), (S ''write'', 5),
     (S ''Edit'', 5), (S ''edit'', 5), (S ''Read'', 20), (S ''read'', 20),
     (S ''Grep'', 10), (S ''Glob'', 10), (S ''WebSearch'', 10), (S ''WebFetch'', 10),
     (S ''Task'', 5), (S ''TaskOutput'', 5), (S ''AskUserQuestion'', 5)] (S ''shell'') = Limit 8"
    by (simp add: sample_limit_def S_def)
  have "extractToolData classify command_of shell_data other ?msgs STANDARD_PRESET
         = Some ([\<lparr>u_name = S ''shell'', u_count = 1, u_errorCount = None,
                   u_samples = [\<lparr>summary = S ''$ pnpm test'' @ arrow @ S ''exit 0'',
                                 sample_data = Some (shell_data (S ''pnpm test'')
                                   (Some pnpm_output) False)\<rparr>]\<rparr>],
                 [])"
    unfolding extractToolData_def Let_def calls
    by (simp add: SummaryCollector_new_def limits_standard run_def add_def add_entry_def
        ensure_def lim getSummaries_def getFilesModified_def Let_def)
  then show ?thesis
    using includes_pnpm exit_code_pnpm by simp
qed

theorem shell_invocation_summary_witness:
  "extractToolData (\<lambda>name. if name = S ''Bash'' then Some Shell else None) (\<lambda>args. args)
     (\<lambda>command text is_error. command) (\<lambda>c name args result. [])
     [(Assistant, [tool_invocation (S ''Bash'') (S ''pnpm test'') (S ''toolu_01'')]),
      (User, [tool_result (S ''toolu_01'') pnpm_output False])]
     STANDARD_PRESET
   = Some ([\<lparr>u_name = S ''shell'', u_count = 1, u_errorCount = None,
             u_samples = [\<lparr>summary = S ''$ pnpm test'' @ arrow @ S ''exit 0'',
                           sample_data = Some (S ''pnpm test'')\<rparr>]\<rparr>],
           [])"
  using shell_invocation_summary
    [of "\<lambda>name. if name = S ''Bash'' then Some Shell else None" "S ''Bash''"
        "\<lambda>args. args" "S ''pnpm test''" "\<lambda>command text is_error. command"
        "\<lambda>c name args result. []" "S ''toolu_01''"]
  by simp

section \<open>Properties of the configuration resolver\<close>

lemma mergeConfig_empty: "mergeConfig (JObj ps) (JObj []) = JObj ps"
  by (simp add: mergeConfig_def own_props_def)

text \<open>
  Claim C4. Merging the empty object onto an object returns that object, so each of
  the four presets is returned unchanged; merging \<open>{shell: {maxSamples: 1}}\<close> onto the
  standard preset returns the standard preset with the leaf \<open>shell.maxSamples\<close>
  replaced by 1 (it was 8) and every other field, in \<open>shell\<close> and elsewhere, as it was.
\<close>

theorem mergeConfig_spec:
  "mergeConfig (JObj ps) (JObj []) = JObj ps \<and>
   mergeConfig MINIMAL_PRESET (JObj []) = MINIMAL_PRESET \<and>
   mergeConfig STANDARD_PRESET (JObj []) = STANDARD_PRESET \<and>
   mergeConfig VERBOSE_PRESET (JObj []) = VERBOSE_PRESET \<and>
   mergeConfig FULL_PRESET (JObj []) = FULL_PRESET \<and>
   mergeConfig STANDARD_PRESET (JObj [obj ''shell'' [num ''maxSamples'' 1]]) =
     replace_at [S ''shell'', S ''maxSamples''] (JNum 1) STANDARD_PRESET \<and>
   number_at STANDARD_PRESET ''shell'' ''maxSamples'' = Some 8 \<and>
   number_at (mergeConfig STANDARD_PRESET (JObj [obj ''shell'' [num ''maxSamples'' 1]]))
     ''shell'' ''maxSamples'' = Some 1"
proof -
  have a: "mergeConfig MINIMAL_PRESET (JObj []) = MINIMAL_PRESET"
    unfolding MINIMAL_PRESET_def by (rule mergeConfig_empty)
  have b: "mergeConfig STANDARD_PRESET (JObj []) = STANDARD_PRESET"
    unfolding STANDARD_PRESET_def by (rule mergeConfig_empty)
  have c: "mergeConfig VERBOSE_PRESET (JObj []) = VERBOSE_PRESET"
    unfolding VERBOSE_PRESET_def by (rule mergeConfig_empty)
  have d: "mergeConfig FULL_PRESET (JObj []) = FULL_PRESET"
    unfolding FULL_PRESET_def by (rule mergeConfig_empty)
  have e: "mergeConfig STANDARD_PRESET (JObj [obj ''shell'' [num ''maxSamples'' 1]]) =
     replace_at [S ''shell'', S ''maxSamples''] (JNum 1) STANDARD_PRESET"
    by (simp add: mergeConfig_def STANDARD_PRESET_def lit objs)
  have f: "number_at STANDARD_PRESET ''shell'' ''maxSamples'' = Some 8"
    by (simp add: STANDARD_PRESET_def lit objs number_at_def)
  have g: "number_at (mergeConfig STANDARD_PRESET (JObj [obj ''shell'' [num ''maxSamples'' 1]]))
     ''shell'' ''maxSamples'' = Some 1"
    by (simp add: mergeConfig_def STANDARD_PRESET_def lit objs number_at_def)
  show ?thesis
    using a b c d e f g by (simp add: mergeConfig_empty)
qed

theorem mergeConfig_spec_witness:
  "mergeConfig (JObj [num ''recentMessages'' 3]) (JObj []) = JObj [num ''recentMessages'' 3] \<and>
   mergeConfig STANDARD_PRESET (JObj [obj ''shell'' [num ''maxSamples'' 1]]) \<noteq> STANDARD_PRESET"
proof -
  note t = mergeConfig_spec [of "[num ''recentMessages'' 3]"]
  from t have f: "number_at STANDARD_PRESET ''shell'' ''maxSamples'' = Some 8"
    and g: "number_at (mergeConfig STANDARD_PRESET (JObj [obj ''shell'' [num ''maxSamples'' 1]]))
     ''shell'' ''maxSamples'' = Some 1"
    by blast+
  have "mergeConfig STANDARD_PRESET (JObj [obj ''shell'' [num ''maxSamples'' 1]]) \<noteq> STANDARD_PRESET"
  proof
    assume "mergeConfig STANDARD_PRESET (JObj [obj ''shell'' [num ''maxSamples'' 1]]) = STANDARD_PRESET"
    with f g show False by simp
  qed
  with t show ?thesis by blast
qed

subsection \<open>Preset names\<close>

lemma getPreset_unknown:
  assumes "name \<notin> set preset_names" and "inherited name = JUndefined"
  shows "getPreset name = Inl (unknown_preset name)"
proof -
  have "map_of PRESETS name = None"
    using assms(1) by (simp add: PRESETS_def preset_names_def)
  then show ?thesis
    using assms(2) by (simp add: getPreset_def get_prop_def truthy_def)
qed

text \<open>
  Each of the four preset names gives its preset, and a name that is neither a preset
  name nor a property name of \<open>Object.prototype\<close> gives the error that names it.
\<close>

theorem getPreset_names:
  "getPreset (S ''minimal'') = Inr MINIMAL_PRESET \<and>
   getPreset (S ''standard'') = Inr STANDARD_PRESET \<and>
   getPreset (S ''verbose'') = Inr VERBOSE_PRESET \<and>
   getPreset (S ''full'') = Inr FULL_PRESET \<and>
   (name \<notin> set preset_names \<and> inherited name = JUndefined \<longrightarrow>
      getPreset name = Inl (unknown_preset name))"
  using getPreset_known getPreset_unknown by blast

theorem getPreset_names_witness:
  "getPreset (S ''terse'') =
     Inl (Error (S ''Unknown verbosity preset '' @ dquote @ S ''terse'' @ dquote @
                 S ''. Valid presets: minimal, standard, verbose, full''))"
proof -
  have "S ''terse'' \<notin> set preset_names \<and> inherited (S ''terse'') = JUndefined"
    by (simp add: preset_names_def inherited_def object_prototype_functions_def S_def)
  with getPreset_names [of "S ''terse''"]
  have "getPreset (S ''terse'') = Inl (unknown_preset (S ''terse''))" by blast
  then show ?thesis
    by (simp add: unknown_preset_def PRESETS_def) (simp add: S_def)
qed

text \<open>
  Claim C9, at the name \<open>constructor\<close>: it is not a preset name, yet \<open>getPreset\<close> does not
  raise the error that names the unknown preset. The lookup finds the function that
  every object inherits under that name, the guard takes it for a preset, and cloning
  it raises a clone error.
\<close>

theorem getPreset_inherited_name:
  "S ''constructor'' \<notin> set preset_names \<and>
   getPreset (S ''constructor'') = Inl DataCloneError \<and>
   getPreset (S ''constructor'') \<noteq> Inl (unknown_preset (S ''constructor''))"
  by (simp add: getPreset_def PRESETS_def preset_names_def S_def objs structuredClone_def
      unknown_preset_def)

subsection \<open>Validation and fallback\<close>

text \<open>
  Claim C5, at the override \<open>{preset: constructor, shell: {maxSamples: -1}}\<close>: the
  resolver does not return a base preset. The name passes the \<open>in\<close> test on the preset
  table because every object inherits a property of that name, and \<open>getPreset\<close> raises
  before anything is merged or validated.
\<close>

theorem parseUserConfig_inherited_preset:
  "parseUserConfig (JObj [str ''preset'' ''constructor'', obj ''shell'' [num ''maxSamples'' (-1)]])
     = Inl DataCloneError"
  by (simp add: parseUserConfig_def getPreset_def PRESETS_def lit objs structuredClone_def)

lemma map_of_set_prop: "map_of (set_prop ps k v) k' = (if k' = k then Some v else map_of ps k')"
  by (induction ps) auto

lemma deepMerge_untouched:
  "k \<notin> fst ` set overrides \<Longrightarrow> map_of (deepMerge result overrides) k = map_of result k"
proof (induction overrides arbitrary: result)
  case Nil
  then show ?case by simp
next
  case (Cons a overrides)
  obtain k0 v0 where a: "a = (k0, v0)" by (cases a)
  with Cons.prems have ne: "k \<noteq> k0" and rest: "k \<notin> fst ` set overrides" by auto
  show ?case
    using Cons.IH [OF rest] ne
    by (simp add: a Let_def map_of_set_prop)
qed

lemma deepMerge_override:
  assumes "distinct (map fst overrides)" and "(k, v) \<in> set overrides" and "v \<noteq> JUndefined"
  shows "\<exists>b. map_of (deepMerge result overrides) k =
           Some (if isPlainObject b \<and> isPlainObject v
                 then JObj (deepMerge (own_props b) (own_props v)) else v)"
  using assms
proof (induction overrides arbitrary: result)
  case Nil
  then show ?case by simp
next
  case (Cons a overrides)
  obtain k0 v0 where a: "a = (k0, v0)" by (cases a)
  show ?case
  proof (cases "k = k0")
    case True
    with Cons.prems a have v: "v = v0" and out: "k \<notin> fst ` set overrides"
      by (auto simp: rev_image_eqI)
    show ?thesis
      using Cons.prems(3)
      by (auto simp: a True v Let_def deepMerge_untouched [OF out [unfolded True]] map_of_set_prop
          intro: exI [of _ "get_prop result k0"] exI [of _ JNull] simp: isPlainObject_def)
  next
    case False
    with Cons.prems a have "(k, v) \<in> set overrides" "distinct (map fst overrides)" by auto
    from Cons.IH [OF this(2) this(1) Cons.prems(3)]
    show ?thesis by (simp add: a Let_def)
  qed
qed

lemma parse_shape_fail:
  "(k, s) \<in> set shape \<Longrightarrow> parse s (get_prop input k) = None \<Longrightarrow> parse_shape shape input = None"
  by (induction shape) (auto split: option.splits)

lemma negative_cap_rejected: "negative_cap s v \<Longrightarrow> parse s v = None"
proof (induction s v rule: negative_cap.induct)
  case (1 cs d x)
  then show ?case by (auto intro!: bexI [of _ "Min 0"])
next
  case (2 shape catchall ps)
  from "2.prems" obtain k s v where
    m: "(k, s) \<in> set shape" and l: "map_of ps k = Some v" and n: "negative_cap s v"
    by (auto simp: list_ex_iff split: option.splits)
  from "2.IH" [OF m _ l n] have "parse s v = None" by simp
  with l have "parse s (get_prop ps k) = None" by (simp add: get_prop_def)
  with m have "parse_shape shape ps = None" by (rule parse_shape_fail)
  then show ?case by simp
qed simp_all

lemma negative_cap_merge_step:
  "negative_cap s v \<Longrightarrow> data_tree v \<Longrightarrow>
   negative_cap s (case v of JObj overrides \<Rightarrow> JObj (deepMerge result overrides) | _ \<Rightarrow> v)"
proof (induction s v arbitrary: result rule: negative_cap.induct)
  case (2 shape catchall overrides)
  from "2.prems"(1) obtain k s v where
    m: "(k, s) \<in> set shape" and l: "map_of overrides k = Some v" and n: "negative_cap s v"
    by (auto simp: list_ex_iff split: option.splits)
  from l have mem: "(k, v) \<in> set overrides" by (rule map_of_SomeD)
  from "2.prems"(2) have d: "distinct (map fst overrides)" and tv: "data_tree v"
    using mem by (auto simp: rev_image_eqI)
  from n have u: "v \<noteq> JUndefined" by auto
  from deepMerge_override [OF d mem u, of result] obtain b where
    b: "map_of (deepMerge result overrides) k =
           Some (if isPlainObject b \<and> isPlainObject v
                 then JObj (deepMerge (own_props b) (own_props v)) else v)"
    by blast
  have "negative_cap s (if isPlainObject b \<and> isPlainObject v
                 then JObj (deepMerge (own_props b) (own_props v)) else v)"
  proof (cases "isPlainObject b \<and> isPlainObject v")
    case False
    then have "(if isPlainObject b \<and> isPlainObject v
                 then JObj (deepMerge (own_props b) (own_props v)) else v) = v"
      by (rule if_not_P)
    with n show ?thesis by (simp only:)
  next
    case True
    with tv obtain vps where v: "v = JObj vps"
      by (cases v) (auto simp: isPlainObject_def)
    from "2.IH" [OF m _ l n tv, of "own_props b"] v
    have "negative_cap s (JObj (deepMerge (own_props b) vps))" by simp
    with True v show ?thesis by (simp add: own_props_def)
  qed
  with b m show ?case
    by (auto simp: list_ex_iff split: option.splits intro!: bexI [of _ "(k, s)"])
qed simp_all

lemma negative_cap_merged:
  "negative_cap s (JObj overrides) \<Longrightarrow> data_tree (JObj overrides) \<Longrightarrow>
   negative_cap s (JObj (deepMerge result overrides))"
  using negative_cap_merge_step [of s "JObj overrides" result] by simp

text \<open>
  For every data tree that holds a negative number for a cap of the schema, the
  resolver's result is what \<open>getPreset\<close> gives for the selected preset name: the merged
  tree fails validation and is discarded, so no result carries the negative value.
\<close>

theorem parseUserConfig_negative_cap:
  assumes "data_tree (JObj ps)" and "negative_cap VerbosityConfigSchema (JObj ps)"
  shows "parseUserConfig (JObj ps) = getPreset (selected_preset ps)"
proof (cases "getPreset (selected_preset ps)")
  case (Inl e)
  then show ?thesis
    by (simp add: parseUserConfig_def isPlainObject_def own_props_def selected_preset_def)
next
  case (Inr base)
  have "negative_cap VerbosityConfigSchema (JObj (deepMerge (own_props base) ps))"
    using assms(2,1) by (rule negative_cap_merged)
  then have "parse VerbosityConfigSchema (JObj (deepMerge (own_props base) ps)) = None"
    by (rule negative_cap_rejected)
  with Inr show ?thesis
    by (simp add: parseUserConfig_def isPlainObject_def own_props_def selected_preset_def)
qed

theorem parseUserConfig_negative_cap_witness:
  "parseUserConfig (JObj [obj ''shell'' [num ''maxSamples'' (-1)]]) = Inr STANDARD_PRESET \<and>
   parseUserConfig (JObj [str ''preset'' ''minimal'', obj ''mcp'' [obj ''thinkingTools''
       [num ''maxReasoningChars'' (-20)]]]) = Inr MINIMAL_PRESET"
proof -
  have a: "data_tree (JObj [obj ''shell'' [num ''maxSamples'' (-1)]])"
    "negative_cap VerbosityConfigSchema (JObj [obj ''shell'' [num ''maxSamples'' (-1)]])"
    "selected_preset [obj ''shell'' [num ''maxSamples'' (-1)]] = S ''standard''"
    by (simp_all add: lit schemas selected_preset_def objs)
  have b: "data_tree (JObj [str ''preset'' ''minimal'', obj ''mcp'' [obj ''thinkingTools''
       [num ''maxReasoningChars'' (-20)]]])"
    "negative_cap VerbosityConfigSchema (JObj [str ''preset'' ''minimal'', obj ''mcp''
       [obj ''thinkingTools'' [num ''maxReasoningChars'' (-20)]]])"
    "selected_preset [str ''preset'' ''minimal'', obj ''mcp''
       [obj ''thinkingTools'' [num ''maxReasoningChars'' (-20)]]] = S ''minimal''"
    by (simp_all add: lit schemas selected_preset_def objs PRESETS_def)
  show ?thesis
    using parseUserConfig_negative_cap [OF a(1,2)] parseUserConfig_negative_cap [OF b(1,2)]
    by (simp add: a(3) b(3) getPreset_known)
qed

section \<open>Properties of the Claude parser\<close>

subsection \<open>Sub-agent results\<close>

lemma subagent_step_other:
  "assistant_blocks m = None \<Longrightarrow> subagent_step etb st m = st"
  by (auto simp: subagent_step_def assistant_blocks_def split: option.splits content.splits if_splits)

lemma subagent_step_assistant:
  "assistant_blocks m = Some blocks \<Longrightarrow>
   subagent_step etb st m =
     LoopState (toolCallCount st + length (filter (\<lambda>b. block_type b = S ''tool_use'') blocks))
       (if substantial (etb blocks) then Some (etb blocks) else lastSubstantialText st)
       (termination_text (etb blocks) \<or> wasKilled st)"
  by (auto simp: subagent_step_def assistant_blocks_def substantial_def termination_text_def Let_def
      split: option.splits content.splits if_splits)

lemma loop_result:
  "foldl (subagent_step etb) st msgs =
     LoopState (toolCallCount st + tool_uses msgs)
       (case filter substantial (assistant_texts etb msgs) of
          [] \<Rightarrow> lastSubstantialText st
        | t # ts \<Rightarrow> Some (last (t # ts)))
       (wasKilled st \<or> list_ex termination_text (assistant_texts etb msgs))"
proof (induction msgs arbitrary: st)
  case Nil
  then show ?case by (simp add: tool_uses_def assistant_texts_def List.map_filter_simps)
next
  case (Cons m msgs)
  show ?case
  proof (cases "assistant_blocks m")
    case None
    then show ?thesis
      using Cons.IH [of st]
      by (simp add: subagent_step_other tool_uses_def assistant_texts_def List.map_filter_simps)
  next
    case (Some blocks)
    then show ?thesis
      using Cons.IH [of "subagent_step etb st m"]
      by (auto simp: subagent_step_assistant tool_uses_def assistant_texts_def
          List.map_filter_simps split: list.splits)
  qed
qed

lemma extract_read:
  "extractSubagentResult etb (ReadOk msgs) =
     SubagentResult
       (case filter substantial (assistant_texts etb msgs) of
          [] \<Rightarrow> None
        | t # ts \<Rightarrow> Some (last (t # ts)))
       (if list_ex termination_text (assistant_texts etb msgs) then killed else completed)
       (tool_uses msgs)"
  by (simp add: extractSubagentResult_def loop_result Let_def split: list.splits)

lemma notice_facts: "termination_text limit_notice" "\<not> substantial limit_notice"
  by (simp_all add: termination_text_def substantial_def isTerminationMessage_def limit_notice_def
      toLowerCase_def lower_def S_def)

lemma report_facts: "substantial final_report" "\<not> termination_text final_report"
  by (simp_all add: termination_text_def substantial_def isTerminationMessage_def final_report_def
      toLowerCase_def lower_def S_def)

lemma texts_example:
  "assistant_texts extractTextFromBlocks [says limit_notice, says final_report]
     = [limit_notice, final_report]"
  "assistant_texts extractTextFromBlocks [says final_report] = [final_report]"
  "assistant_texts extractTextFromBlocks [says final_report, says limit_notice]
     = [final_report, limit_notice]"
  by (simp_all add: assistant_texts_def List.map_filter_simps assistant_blocks_def says_def
      extractTextFromBlocks_def S_def)

lemma tools_example: "tool_uses [says x, says y] = 0"
  by (simp add: tool_uses_def List.map_filter_simps assistant_blocks_def says_def S_def)

text \<open>
  Claim C2, as amended. For a transcript that was read, the status is \<open>killed\<close> exactly
  when some assistant text is a termination text, whatever follows it, and
  \<open>completed\<close> otherwise; the returned text is the last substantial assistant text, if
  any, and the tool-call count is the number of tool-use blocks of the assistant
  messages. For a transcript that could not be read the status is \<open>killed\<close>.
\<close>

theorem extractSubagentResult_status:
  "res_status (extractSubagentResult etb (ReadOk msgs)) =
     (if list_ex termination_text (assistant_texts etb msgs) then killed else completed) \<and>
   res_text (extractSubagentResult etb (ReadOk msgs)) =
     (case filter substantial (assistant_texts etb msgs) of
        [] \<Rightarrow> None
      | t # ts \<Rightarrow> Some (last (t # ts))) \<and>
   res_toolCallCount (extractSubagentResult etb (ReadOk msgs)) = tool_uses msgs \<and>
   res_status (extractSubagentResult etb ReadFailed) = killed"
  by (simp add: extract_read) (simp add: extractSubagentResult_def)

theorem extractSubagentResult_status_witness:
  "res_status (extractSubagentResult extractTextFromBlocks
      (ReadOk [says limit_notice, says final_report])) = killed \<and>
   res_status (extractSubagentResult extractTextFromBlocks (ReadOk [says final_report])) = completed \<and>
   res_text (extractSubagentResult extractTextFromBlocks
      (ReadOk [says final_report, says limit_notice])) = Some final_report"
  using extractSubagentResult_status [of extractTextFromBlocks "[says limit_notice, says final_report]"]
    extractSubagentResult_status [of extractTextFromBlocks "[says final_report]"]
    extractSubagentResult_status [of extractTextFromBlocks "[says final_report, says limit_notice]"]
  by (simp add: texts_example notice_facts report_facts)

text \<open>
  The claim as the spec words it fails on a transcript whose assistant first says a
  rate-limit notice and then a substantial report: the status is \<open>killed\<close> although a
  substantial text follows the notice.
\<close>

theorem extractSubagentResult_status_counterexample:
  "extractSubagentResult extractTextFromBlocks (ReadOk [says limit_notice, says final_report])
     = SubagentResult (Some final_report) killed 0 \<and>
   \<not> killed_as_claimed (assistant_texts extractTextFromBlocks [says limit_notice, says final_report])"
proof -
  have "\<not> killed_as_claimed [limit_notice, final_report]"
    by (simp add: notice_facts report_facts)
  moreover have "extractSubagentResult extractTextFromBlocks
      (ReadOk [says limit_notice, says final_report]) = SubagentResult (Some final_report) killed 0"
    by (simp add: extract_read texts_example notice_facts report_facts tools_example)
  ultimately show ?thesis by (simp add: texts_example)
qed

lemma resolve_task_results:
  "subagentResults (resolve_task etb read_file cfg completedIds task st) =
     subagentResults st @
       [SubagentNote (fst task) (snd task)
          (res_status (extractSubagentResult etb (read_file (fst task))))
          (map_option (\<lambda>t. truncate t (task_subagentResultChars cfg))
             (case res_text (extractSubagentResult etb (read_file (fst task))) of
                Some t \<Rightarrow> if t = [] then None else Some t | None \<Rightarrow> None))
          (res_toolCallCount (extractSubagentResult etb (read_file (fst task))))]"
  by (simp add: resolve_task_def Let_def split: option.splits)

lemma resolve_subagents_grows:
  "\<exists>more. subagentResults (resolve_subagents etb read_file cfg completedIds tasks st)
           = subagentResults st @ more"
proof (induction tasks arbitrary: st)
  case Nil
  then show ?case by simp
next
  case (Cons task rest)
  show ?case
  proof (cases "int (subagentCount st) \<ge> task_maxSamples cfg")
    case True
    then show ?thesis by simp
  next
    case False
    from Cons.IH [of "resolve_task etb read_file cfg completedIds task st"]
    obtain more where
      "subagentResults (resolve_subagents etb read_file cfg completedIds rest
          (resolve_task etb read_file cfg completedIds task st))
       = subagentResults (resolve_task etb read_file cfg completedIds task st) @ more"
      by blast
    with False show ?thesis by (simp add: resolve_task_results)
  qed
qed

text \<open>
  Claim C6. When the transcript of a delegated task cannot be read,
  \<open>extractSubagentResult\<close> returns the result with no text, status \<open>killed\<close> and
  tool-call count 0; and the loop over the delegated tasks, when it reaches such a
  task, records exactly that result for it and goes on with the remaining tasks.
\<close>

theorem unreadable_subagent_is_killed:
  "extractSubagentResult etb ReadFailed = SubagentResult None killed 0 \<and>
   (read_file taskId = ReadFailed \<and> int (subagentCount st) < task_maxSamples cfg \<longrightarrow>
      take (Suc (length (subagentResults st)))
        (subagentResults
           (resolve_subagents etb read_file cfg completedIds ((taskId, description) # rest) st))
      = subagentResults st @ [SubagentNote taskId description killed None 0])"
proof (intro conjI impI)
  show r: "extractSubagentResult etb ReadFailed = SubagentResult None killed 0"
    by (simp add: extractSubagentResult_def)
  assume a: "read_file taskId = ReadFailed \<and> int (subagentCount st) < task_maxSamples cfg"
  let ?st1 = "resolve_task etb read_file cfg completedIds (taskId, description) st"
  have one: "subagentResults ?st1 = subagentResults st @ [SubagentNote taskId description killed None 0]"
    using a by (simp add: resolve_task_results r)
  from resolve_subagents_grows [of etb read_file cfg completedIds rest ?st1]
  obtain more where
    "subagentResults (resolve_subagents etb read_file cfg completedIds rest ?st1)
       = subagentResults ?st1 @ more"
    by blast
  with a one show "take (Suc (length (subagentResults st)))
        (subagentResults
           (resolve_subagents etb read_file cfg completedIds ((taskId, description) # rest) st))
      = subagentResults st @ [SubagentNote taskId description killed None 0]"
    by simp
qed

theorem unreadable_subagent_is_killed_witness:
  "resolve_subagents extractTextFromBlocks (\<lambda>taskId. ReadFailed) (SubagentConfig 5 500 True 10) []
     [(S ''a1'', S ''explore the parsers'')] (NotesState 0 [] [] [])
   = NotesState 0 [SubagentNote (S ''a1'') (S ''explore the parsers'') killed None 0] []
       [S ''Incomplete subagent: '' @ S ''explore the parsers'']"
proof -
  have "take (Suc (length (subagentResults (NotesState 0 [] [] []))))
        (subagentResults
           (resolve_subagents extractTextFromBlocks (\<lambda>taskId. ReadFailed)
              (SubagentConfig 5 500 True 10) []
              ((S ''a1'', S ''explore the parsers'') # []) (NotesState 0 [] [] [])))
      = subagentResults (NotesState 0 [] [] []) @
          [SubagentNote (S ''a1'') (S ''explore the parsers'') killed None 0]"
    using unreadable_subagent_is_killed
      [of extractTextFromBlocks "\<lambda>taskId. ReadFailed" "S ''a1''" "NotesState 0 [] [] []"
          "SubagentConfig 5 500 True 10" "[]" "S ''explore the parsers''" "[]"]
    by simp
  then show ?thesis
    by (simp add: resolve_task_def extractSubagentResult_def Let_def)
qed

subsection \<open>Pending tasks\<close>

lemma collect_full: "int (length tasks) \<ge> maxTasks \<Longrightarrow> collect maxTasks cs tasks = tasks"
  by (cases cs) simp_all

lemma collect_append:
  "collect maxTasks (xs @ ys) tasks = collect maxTasks ys (collect maxTasks xs tasks)"
  by (induction xs arbitrary: tasks) (simp_all add: collect_full)

lemma scan_blocks_collect:
  "scan_blocks maxTasks blocks tasks = collect maxTasks (List.map_filter next_action_of blocks) tasks"
  by (induction blocks arbitrary: tasks)
     (auto simp: List.map_filter_simps collect_full split: option.splits)

lemma walk_back_collect:
  "walk_back maxTasks msgs tasks = collect maxTasks (concat (map next_actions msgs)) tasks"
proof (induction msgs arbitrary: tasks)
  case Nil
  then show ?case by simp
next
  case (Cons msg earlier)
  show ?case
  proof (cases "int (length tasks) < maxTasks")
    case False
    then show ?thesis by (simp add: collect_full)
  next
    case True
    then show ?thesis
      using Cons.IH
      by (auto simp: next_actions_def assistant_blocks_def collect_append scan_blocks_collect
          split: option.splits content.splits)
  qed
qed

lemma collect_first_occurrences:
  "collect maxTasks cs tasks =
     tasks @ take (nat (maxTasks - int (length tasks)))
               (first_occurrences (filter (\<lambda>c. c \<notin> set tasks) cs))"
proof (induction cs arbitrary: tasks)
  case Nil
  then show ?case by simp
next
  case (Cons c cs)
  show ?case
  proof (cases "int (length tasks) \<ge> maxTasks")
    case True
    then show ?thesis by simp
  next
    case room: False
    show ?thesis
    proof (cases "c \<in> set tasks")
      case True
      with room show ?thesis using Cons.IH [of tasks] by simp
    next
      case False
      have n: "nat (maxTasks - int (length tasks)) = Suc (nat (maxTasks - int (length (tasks @ [c]))))"
        using room by simp
      have f: "filter (\<lambda>ca. ca \<noteq> c \<and> ca \<notin> set tasks) cs
                 = filter (\<lambda>x. x \<notin> set tasks \<and> x \<noteq> c) cs"
        by (rule filter_cong) auto
      show ?thesis
        using room False Cons.IH [of "tasks @ [c]"]
        by (simp add: n f)
    qed
  qed
qed

lemma pending_characterised:
  "extractPendingFromThinking messages maxTasks =
     take (nat maxTasks) (first_occurrences (concat (map next_actions (rev messages))))"
  by (simp add: extractPendingFromThinking_def walk_back_collect collect_first_occurrences)

lemma next_actions_step:
  "length a > 5 \<Longrightarrow> next_actions (reasoning_step a) = [truncate (trim a) 200]"
  by (auto simp: next_actions_def assistant_blocks_def reasoning_step_def next_action_of_def
      thinkingToolNames_def List.map_filter_simps get_prop_def S_def)

lemma next_actions_short:
  "length a \<le> 5 \<Longrightarrow> next_actions (reasoning_step a) = []"
  by (auto simp: next_actions_def assistant_blocks_def reasoning_step_def next_action_of_def
      thinkingToolNames_def List.map_filter_simps get_prop_def S_def)

lemma trimmed_tasks:
  "truncate (trim task_a) 200 = S ''run the unit tests''"
  "truncate (trim task_b) 200 = S ''update the changelog''"
  "truncate (trim task_c) 200 = S ''open the pull request''"
  by (simp_all add: task_a_def task_b_def task_c_def truncate_def trim_def is_ws_def S_def)

lemma long_tasks: "length task_a > 5" "length task_b > 5" "length task_c > 5"
  by (simp_all add: task_a_def task_b_def task_c_def)

text \<open>
  Claim C3, as amended. The inferred list is the first \<open>maxTasks\<close> distinct next actions
  met when the messages are walked from the last to the first (the blocks of one
  message in their order), where a next action counts when it is a string of more than
  five code units and is taken trimmed and truncated to 200; so the list has no
  duplicates and at most \<open>maxTasks\<close> entries. In particular, for four messages whose
  reasoning steps have, in chronological order, the next actions A, B, A, C, each
  longer than five code units and with distinct trimmed texts, and a maximum of at
  least 3, the list is C, A, B.
\<close>

theorem pending_tasks_order:
  assumes "length a > 5" "length b > 5" "length c > 5"
    and "distinct [truncate (trim a) 200, truncate (trim b) 200, truncate (trim c) 200]"
    and "3 \<le> maxTasks"
  shows "extractPendingFromThinking messages limit =
           take (nat limit) (first_occurrences (concat (map next_actions (rev messages)))) \<and>
         distinct (extractPendingFromThinking messages limit) \<and>
         int (length (extractPendingFromThinking messages limit)) \<le> max 0 limit \<and>
         extractPendingFromThinking
           [reasoning_step a, reasoning_step b, reasoning_step a, reasoning_step c] maxTasks
           = [truncate (trim c) 200, truncate (trim a) 200, truncate (trim b) 200]"
proof -
  have "nat maxTasks \<ge> 3" using assms(5) by simp
  then obtain n where n: "nat maxTasks = Suc (Suc (Suc n))"
    by (metis Suc_le_D numeral_3_eq_3 Suc_le_mono)
  have ex: "extractPendingFromThinking
           [reasoning_step a, reasoning_step b, reasoning_step a, reasoning_step c] maxTasks
           = [truncate (trim c) 200, truncate (trim a) 200, truncate (trim b) 200]"
    using assms(1-4) by (auto simp: pending_characterised next_actions_step n)
  show ?thesis
    by (simp add: ex) (simp add: pending_characterised)
qed

theorem pending_tasks_order_witness:
  "extractPendingFromThinking
     [reasoning_step task_a, reasoning_step task_b, reasoning_step task_a, reasoning_step task_c] 3
   = [S ''open the pull request'', S ''run the unit tests'', S ''update the changelog''] \<and>
   extractPendingFromThinking
     [reasoning_step task_a, reasoning_step task_b, reasoning_step task_a, reasoning_step task_c] 2
   = [S ''open the pull request'', S ''run the unit tests'']"
proof -
  have d: "distinct [truncate (trim task_a) 200, truncate (trim task_b) 200, truncate (trim task_c) 200]"
    by (simp add: trimmed_tasks) (simp add: S_def)
  have three: "(3::int) \<le> 3" by simp
  note t = pending_tasks_order [OF long_tasks d three]
  have "extractPendingFromThinking
     [reasoning_step task_a, reasoning_step task_b, reasoning_step task_a, reasoning_step task_c] 2
   = take (nat 2) (first_occurrences (concat (map next_actions (rev
        [reasoning_step task_a, reasoning_step task_b, reasoning_step task_a, reasoning_step task_c]))))"
    using t by blast
  also have "\<dots> = [S ''open the pull request'', S ''run the unit tests'']"
    by (simp add: next_actions_step long_tasks trimmed_tasks numeral_2_eq_2 S_def)
  finally have two: "extractPendingFromThinking
     [reasoning_step task_a, reasoning_step task_b, reasoning_step task_a, reasoning_step task_c] 2
   = [S ''open the pull request'', S ''run the unit tests'']" .
  from t have "extractPendingFromThinking
     [reasoning_step task_a, reasoning_step task_b, reasoning_step task_a, reasoning_step task_c] 3
   = [truncate (trim task_c) 200, truncate (trim task_a) 200, truncate (trim task_b) 200]"
    by blast
  with two show ?thesis by (simp add: trimmed_tasks)
qed

text \<open>
  The claim's own example fails twice. With the one-letter strings A, B, C no next
  action is longer than five code units and the list is empty. With longer strings
  read most-recent-first as A, B, A, C (so the session ends with A), the list is
  A, B, C, not C, A, B.
\<close>

theorem pending_tasks_order_counterexample:
  "extractPendingFromThinking
     [reasoning_step (S ''C''), reasoning_step (S ''A''), reasoning_step (S ''B''),
      reasoning_step (S ''A'')] 10 = [] \<and>
   extractPendingFromThinking
     [reasoning_step task_c, reasoning_step task_a, reasoning_step task_b, reasoning_step task_a] 10
   = [S ''run the unit tests'', S ''update the changelog'', S ''open the pull request'']"
proof -
  have "extractPendingFromThinking
     [reasoning_step (S ''C''), reasoning_step (S ''A''), reasoning_step (S ''B''),
      reasoning_step (S ''A'')] 10 = []"
    by (simp add: pending_characterised next_actions_short)
  moreover have "extractPendingFromThinking
     [reasoning_step task_c, reasoning_step task_a, reasoning_step task_b, reasoning_step task_a] 10
   = [S ''run the unit tests'', S ''update the changelog'', S ''open the pull request'']"
    by (simp add: pending_characterised next_actions_step long_tasks trimmed_tasks S_def)
  ultimately show ?thesis by simp
qed

end
